theory Spec2Isabelle
  imports Complex_Main
begin

section \<open>Values, errors and Python list indexing\<close>

text \<open>
  The engine is one Python module, \<^verbatim>\<open>console_game_engine/__init__.py\<close>. Its functions
  mutate objects in place and may raise. In this development a function takes the state
  it touches and returns the state it leaves behind, together with a \<open>result\<close> that says
  whether it returned or raised: the state is returned in both cases, because an
  exception does not undo the assignments made before it.

  A field \<^verbatim>\<open>f\<close> of a class is a record field with a short prefix for the class
  (\<open>p_\<close> for \<^verbatim>\<open>_Player\<close>, \<open>b_\<close> for \<^verbatim>\<open>_Board\<close>, \<open>g_\<close> for \<^verbatim>\<open>ConsoleGame\<close>), since record
  fields are global constants.
\<close>

datatype error = IndexError | ValueError | OverflowError | ZeroDivisionError | HookError

datatype 'a result = Return 'a | Raise error

text \<open>
  Subscripting a Python list of length \<open>n\<close> with the integer \<open>i\<close>: the indices
  \<open>0 .. n-1\<close> are taken as they are, the indices \<open>-n .. -1\<close> count from the end, and
  every other index raises \<^verbatim>\<open>IndexError\<close> (here: \<open>None\<close>).
\<close>

definition py_index :: "nat \<Rightarrow> int \<Rightarrow> nat option" where
  "py_index n i =
     (if 0 \<le> i \<and> i < int n then Some (nat i)
      else if - int n \<le> i \<and> i < 0 then Some (nat (int n + i))
      else None)"

section \<open>Entities\<close>

text \<open>
  The movement keys of a player are whatever the caller passes as \<^verbatim>\<open>mov_u\<close>, \<^verbatim>\<open>mov_l\<close>,
  \<^verbatim>\<open>mov_d\<close>, \<^verbatim>\<open>mov_r\<close>; the defaults are the strings \<^verbatim>\<open>"up"\<close>, \<^verbatim>\<open>"left"\<close>, \<^verbatim>\<open>"down"\<close>,
  \<^verbatim>\<open>"right"\<close>. The only use is the test \<^verbatim>\<open>key in self.left\<close>, which on a string is the
  substring test and on a list, tuple or set is membership.
\<close>

datatype keys = KeyStr string | KeyColl "string list"

fun starts_with :: "string \<Rightarrow> string \<Rightarrow> bool" where
  "starts_with [] ys = True"
| "starts_with (x # xs) [] = False"
| "starts_with (x # xs) (y # ys) = (x = y \<and> starts_with xs ys)"

fun substring :: "string \<Rightarrow> string \<Rightarrow> bool" where
  "substring xs [] = (xs = [])"
| "substring xs (y # ys) = (starts_with xs (y # ys) \<or> substring xs ys)"

fun key_in :: "string \<Rightarrow> keys \<Rightarrow> bool" where
  "key_in key (KeyStr s) = substring key s"
| "key_in key (KeyColl ks) = (key \<in> set ks)"

text \<open>
  \<^verbatim>\<open>_Player.__init__\<close> stores \<^verbatim>\<open>list(start_pos)\<close>: a fresh two-element list
  \<^verbatim>\<open>[pos[0], pos[1]]\<close>, here the pair \<open>(pos[0], pos[1])\<close>. The collision callback is
  never called by the module; it is kept as an opaque identifier.
\<close>

record Player =
  p_char :: string
  p_pos :: "int \<times> int"
  p_left :: keys
  p_right :: keys
  p_up :: keys
  p_down :: keys
  p_collideable :: bool
  p_action :: "nat option"

definition Player_init ::
  "string \<Rightarrow> int \<times> int \<Rightarrow> keys \<Rightarrow> keys \<Rightarrow> keys \<Rightarrow> keys \<Rightarrow> bool \<Rightarrow> nat option \<Rightarrow> Player" where
  "Player_init character start_pos mov_u mov_l mov_d mov_r collideable collide_action =
     \<lparr> p_char = character, p_pos = start_pos, p_left = mov_l, p_right = mov_r,
       p_up = mov_u, p_down = mov_d, p_collideable = collideable,
       p_action = collide_action \<rparr>"

text \<open>\<^verbatim>\<open>_DynamicEntity._change_position\<close>: \<^verbatim>\<open>self.pos[0] += x; self.pos[1] += y\<close>.\<close>

definition change_position_by :: "Player \<Rightarrow> int \<Rightarrow> int \<Rightarrow> Player" where
  "change_position_by player dx dy =
     player\<lparr> p_pos := (fst (p_pos player) + dx, snd (p_pos player) + dy) \<rparr>"

text \<open>
  \<^verbatim>\<open>_Player.change_position\<close>: the \<^verbatim>\<open>if\<close>/\<^verbatim>\<open>elif\<close> chain in the order of the source,
  returning \<open>0\<close> after a move and \<open>-1\<close> when no branch matched.
\<close>

definition change_position :: "Player \<Rightarrow> string \<Rightarrow> int \<times> Player" where
  "change_position player key =
     (if key_in key (p_left player) then (0, change_position_by player (-1) 0)
      else if key_in key (p_right player) then (0, change_position_by player 1 0)
      else if key_in key (p_up player) then (0, change_position_by player 0 (-1))
      else if key_in key (p_down player) then (0, change_position_by player 0 1)
      else (-1, player))"

section \<open>The list store and the board\<close>

text \<open>
  A board is a \<^verbatim>\<open>list[list[str]]\<close>. Lists are mutable objects with an identity, and the
  engine relies on \<^verbatim>\<open>copy.deepcopy\<close> to keep its baseline apart from the grid it draws
  on, so lists live in a store: \<open>outers\<close> holds the lists of rows (each a list of row
  addresses), \<open>rows\<close> holds the rows (each a list of cells). An address is an index
  into the store and allocation appends. Cells are strings, which are immutable.
\<close>

type_synonym addr = nat

record heap =
  outers :: "addr list list"
  rows :: "string list list"

text \<open>Every address stored or held is allocated; Python has no dangling reference.\<close>

definition wf_heap :: "heap \<Rightarrow> bool" where
  "wf_heap h = (\<forall>rs \<in> set (outers h). \<forall>a \<in> set rs. a < length (rows h))"

text \<open>The text value of a grid: its rows of cells, all sharing forgotten.\<close>

definition grid_cells :: "heap \<Rightarrow> addr \<Rightarrow> string list list" where
  "grid_cells h g = map (\<lambda>a. rows h ! a) (outers h ! g)"

text \<open>
  \<^verbatim>\<open>copy.deepcopy\<close> of a list of lists of strings. The copy of the outer list is a new
  list; each row is copied to a new list unless the memo already holds a copy of that
  very row object (the same row listed twice stays one shared row in the copy); strings
  are atomic and are not copied.
\<close>

fun deepcopy_rows ::
  "(addr \<times> addr) list \<Rightarrow> addr list \<Rightarrow> string list list \<Rightarrow> addr list \<times> string list list" where
  "deepcopy_rows memo [] rws = ([], rws)"
| "deepcopy_rows memo (a # as) rws =
     (case map_of memo a of
        Some a' \<Rightarrow>
          (case deepcopy_rows memo as rws of (bs, rws') \<Rightarrow> (a' # bs, rws'))
      | None \<Rightarrow>
          (case deepcopy_rows ((a, length rws) # memo) as (rws @ [rws ! a]) of
             (bs, rws') \<Rightarrow> (length rws # bs, rws')))"

definition deepcopy :: "heap \<Rightarrow> addr \<Rightarrow> addr \<times> heap" where
  "deepcopy h g =
     (case deepcopy_rows [] (outers h ! g) (rows h) of
        (bs, rws') \<Rightarrow> (length (outers h), \<lparr> outers = outers h @ [bs], rows = rws' \<rparr>))"

text \<open>
  \<^verbatim>\<open>_Board\<close>. The constructor keeps the caller's list itself as \<^verbatim>\<open>self.board\<close>, reads
  \<^verbatim>\<open>len(self.board) - 1\<close> and \<^verbatim>\<open>len(self.board[0]) - 1\<close>, and stores a deep copy as the
  baseline \<^verbatim>\<open>self._copy\<close>. The subscript \<^verbatim>\<open>self.board[0]\<close> raises \<^verbatim>\<open>IndexError\<close> on a list
  with no rows; nothing else is checked.
\<close>

record Board =
  b_board :: addr
  b_x :: int
  b_y :: int
  b_copy :: addr

definition Board_init :: "heap \<Rightarrow> addr \<Rightarrow> Board result \<times> heap" where
  "Board_init h board =
     (case outers h ! board of
        [] \<Rightarrow> (Raise IndexError, h)
      | r0 # rs \<Rightarrow>
          (case deepcopy h board of
             (c, h') \<Rightarrow>
               (Return \<lparr> b_board = board,
                         b_x = int (length (outers h ! board)) - 1,
                         b_y = int (length (rows h ! r0)) - 1,
                         b_copy = c \<rparr>, h')))"

text \<open>\<^verbatim>\<open>"".join(row) + "\n"\<close> for every row of a list of rows, concatenated.\<close>

definition grid_str :: "heap \<Rightarrow> addr \<Rightarrow> string" where
  "grid_str h g = concat (map (\<lambda>a. concat (rows h ! a) @ [CHR 0x0A]) (outers h ! g))"

definition Board_str :: "heap \<Rightarrow> Board \<Rightarrow> string" where
  "Board_str h b = grid_str h (b_board b)"

text \<open>\<^verbatim>\<open>_Board._original\<close>: a deep copy of the baseline.\<close>

definition original :: "heap \<Rightarrow> Board \<Rightarrow> addr \<times> heap" where
  "original h b = deepcopy h (b_copy b)"

text \<open>\<^verbatim>\<open>_Board._original_as_string\<close>: \<^verbatim>\<open>str(_Board(self._original()))\<close>.\<close>

definition original_as_string :: "heap \<Rightarrow> Board \<Rightarrow> string result \<times> heap" where
  "original_as_string h b =
     (case original h b of
        (g, h1) \<Rightarrow>
          (case Board_init h1 g of
             (Raise e, h2) \<Rightarrow> (Raise e, h2)
           | (Return b', h2) \<Rightarrow> (Return (Board_str h2 b'), h2)))"

text \<open>
  \<^verbatim>\<open>grid[i][j] = v\<close> on the list of rows at \<open>g\<close>: two subscripts, each of which may
  raise, then the store of the cell into the row object.
\<close>

definition setitem2 :: "heap \<Rightarrow> addr \<Rightarrow> int \<Rightarrow> int \<Rightarrow> string \<Rightarrow> unit result \<times> heap" where
  "setitem2 h g i j v =
     (case py_index (length (outers h ! g)) i of
        None \<Rightarrow> (Raise IndexError, h)
      | Some i' \<Rightarrow>
          (let a = outers h ! g ! i' in
           case py_index (length (rows h ! a)) j of
             None \<Rightarrow> (Raise IndexError, h)
           | Some j' \<Rightarrow> (Return (), h\<lparr> rows := (rows h)[a := (rows h ! a)[j' := v]] \<rparr>)))"

section \<open>The game object\<close>

text \<open>
  The state of a \<^verbatim>\<open>ConsoleGame\<close>: its attributes, and with them the two parts of the
  world its methods change, the list store and the console. \<^verbatim>\<open>Console.clear()\<close> and
  \<^verbatim>\<open>Console.writeline(self.board)\<close> append to the console's trace; the line written is
  the board's \<^verbatim>\<open>__str__\<close>. \<open>g_players\<close> is \<^verbatim>\<open>self.entities["Players"]\<close>, in insertion
  order; \<^verbatim>\<open>add_player\<close> is the only method that extends it, always with a new object,
  so the players are held by value. The collectibles are stored by the source and never
  read, and are left out. A hook is a Python callable; the game stores which one
  (\<open>None\<close> for \<^verbatim>\<open>None\<close>) and the environment \<open>env\<close> says what each one does to the state,
  raising included.

  \<^verbatim>\<open>__init__\<close> sets only \<^verbatim>\<open>board\<close>, \<^verbatim>\<open>entities\<close> and \<^verbatim>\<open>_active\<close>; the other attributes
  exist from \<^verbatim>\<open>initialize\<close> or \<^verbatim>\<open>quit\<close> on. No method reads them while \<^verbatim>\<open>_active\<close> is
  false, so \<open>ConsoleGame_init\<close> fills them with the values \<^verbatim>\<open>quit\<close> assigns (and \<open>0\<close> for
  the interval).
\<close>

datatype console_event = Clear | WriteLine string

record game =
  g_board :: Board
  g_players :: "Player list"
  g_active :: bool
  g_smart_updating :: bool
  g_interval_updating :: bool
  g_interval :: int
  g_pending_update :: bool
  g_preupdate :: "nat option"
  g_postupdate :: "nat option"
  g_on_key :: "nat option"
  g_delay :: rat
  g_heap :: heap
  g_console :: "console_event list"

record env =
  hook :: "nat \<Rightarrow> game \<Rightarrow> unit result \<times> game"
  key_hook :: "nat \<Rightarrow> string \<Rightarrow> game \<Rightarrow> unit result \<times> game"
  sleep_limit :: rat

definition ConsoleGame_init :: "heap \<Rightarrow> console_event list \<Rightarrow> addr \<Rightarrow> game result" where
  "ConsoleGame_init h con board =
     (case Board_init h board of
        (Raise e, h') \<Rightarrow> Raise e
      | (Return b, h') \<Rightarrow>
          Return \<lparr> g_board = b, g_players = [], g_active = False,
                   g_smart_updating = False, g_interval_updating = False, g_interval = 0,
                   g_pending_update = False, g_preupdate = None, g_postupdate = None,
                   g_on_key = None, g_delay = 0, g_heap = h', g_console = con \<rparr>)"

text \<open>
  \<^verbatim>\<open>initialize\<close>. When both modes are requested it warns and sleeps five seconds, which
  changes nothing in the state; the assignments follow.
\<close>

definition initialize ::
  "bool \<Rightarrow> bool \<Rightarrow> nat option \<Rightarrow> nat option \<Rightarrow> nat option \<Rightarrow> rat \<Rightarrow> game \<Rightarrow> game" where
  "initialize smart_updating interval_updating preupdate postupdate on_key
       delay_per_iteration g =
     g\<lparr> g_smart_updating := smart_updating,
        g_interval_updating := interval_updating,
        g_interval := 1,
        g_pending_update := True,
        g_preupdate := preupdate,
        g_postupdate := postupdate,
        g_on_key := on_key,
        g_delay := delay_per_iteration,
        g_active := True \<rparr>"

definition quit :: "game \<Rightarrow> game" where
  "quit g =
     g\<lparr> g_smart_updating := False,
        g_interval_updating := False,
        g_pending_update := False,
        g_preupdate := None,
        g_postupdate := None,
        g_on_key := None,
        g_delay := 0,
        g_active := False \<rparr>"

definition add_player ::
  "string \<Rightarrow> int \<times> int \<Rightarrow> keys \<Rightarrow> keys \<Rightarrow> keys \<Rightarrow> keys \<Rightarrow> bool \<Rightarrow> nat option \<Rightarrow> game
     \<Rightarrow> Player \<times> game" where
  "add_player character start_pos mov_u mov_l mov_d mov_r collideable collide_action g =
     (let player = Player_init character start_pos mov_u mov_l mov_d mov_r collideable
                     collide_action
      in (player, g\<lparr> g_players := g_players g @ [player] \<rparr>))"

text \<open>
  \<^verbatim>\<open>change_player_position\<close>: the player moves (or not), the flag is set, the player's
  result is returned. The player object is passed in and handed back; \<open>move_listed\<close> is
  the call on the \<open>i\<close>-th listed player.
\<close>

definition change_player_position :: "game \<Rightarrow> Player \<Rightarrow> string \<Rightarrow> int \<times> Player \<times> game" where
  "change_player_position g player key =
     (case change_position player key of
        (res, player') \<Rightarrow> (res, player', g\<lparr> g_pending_update := True \<rparr>))"

definition move_listed :: "nat \<Rightarrow> string \<Rightarrow> game \<Rightarrow> int \<times> game" where
  "move_listed i key g =
     (case change_player_position g (g_players g ! i) key of
        (res, player', g') \<Rightarrow> (res, g'\<lparr> g_players := (g_players g')[i := player'] \<rparr>))"

section \<open>The redraw\<close>

text \<open>
  The body of the loop over the players in \<^verbatim>\<open>_update_and_display_board\<close>, up to the
  store into the grid: \<^verbatim>\<open>player_x\<close> is \<^verbatim>\<open>pos[1]\<close> and is compared with \<^verbatim>\<open>board.x\<close>,
  \<^verbatim>\<open>player_y\<close> is \<^verbatim>\<open>pos[0]\<close> and is compared with \<^verbatim>\<open>board.y\<close>. The result is the final
  \<^verbatim>\<open>player_x\<close>, the final \<^verbatim>\<open>player_y\<close> and the player with its position as assigned.
\<close>

definition clamp :: "Board \<Rightarrow> Player \<Rightarrow> int \<times> int \<times> Player" where
  "clamp b player =
     (let player_x = snd (p_pos player); player_y = fst (p_pos player) in
      if player_x > b_x b then
        (let diff_x = player_x - b_x b; player_x' = player_x - diff_x
         in (player_x', player_y, player\<lparr> p_pos := (fst (p_pos player), player_x') \<rparr>))
      else if player_y > b_y b then
        (let diff_y = player_y - b_y b; player_y' = player_y - diff_y
         in (player_x, player_y', player\<lparr> p_pos := (player_y', snd (p_pos player)) \<rparr>))
      else if player_x < 0 then
        (0, player_y, player\<lparr> p_pos := (fst (p_pos player), 0) \<rparr>)
      else if player_y < 0 then
        (player_x, 0, player\<lparr> p_pos := (0, snd (p_pos player)) \<rparr>)
      else (player_x, player_y, player))"

text \<open>
  The loop over the players: clamp, then \<^verbatim>\<open>self.board.board[player_x][player_y] =
  player.char\<close>. When the store raises, the loop ends there: the players before and the
  current one keep what was assigned to them, the later ones are untouched.
\<close>

fun display_players ::
  "Board \<Rightarrow> Player list \<Rightarrow> heap \<Rightarrow> unit result \<times> Player list \<times> heap" where
  "display_players b [] h = (Return (), [], h)"
| "display_players b (player # ps) h =
     (case clamp b player of
        (player_x, player_y, player') \<Rightarrow>
          (case setitem2 h (b_board b) player_x player_y (p_char player') of
             (Raise e, h') \<Rightarrow> (Raise e, player' # ps, h')
           | (Return u, h') \<Rightarrow>
               (case display_players b ps h' of
                  (r, ps', h'') \<Rightarrow> (r, player' # ps', h''))))"

definition update_and_display_board :: "game \<Rightarrow> unit result \<times> game" where
  "update_and_display_board g =
     (case original (g_heap g) (g_board g) of
        (w, h1) \<Rightarrow>
          (let b = (g_board g)\<lparr> b_board := w \<rparr> in
           case display_players b (g_players g) h1 of
             (Raise e, ps, h2) \<Rightarrow>
               (Raise e, g\<lparr> g_console := g_console g @ [Clear], g_board := b,
                            g_players := ps, g_heap := h2 \<rparr>)
           | (Return u, ps, h2) \<Rightarrow>
               (Return (), g\<lparr> g_console := g_console g @ [Clear, WriteLine (Board_str h2 b)],
                              g_board := b, g_players := ps, g_heap := h2 \<rparr>)))"

section \<open>The loop\<close>

definition call_hook :: "env \<Rightarrow> nat option \<Rightarrow> game \<Rightarrow> unit result \<times> game" where
  "call_hook e f g = (case f of None \<Rightarrow> (Return (), g) | Some i \<Rightarrow> hook e i g)"

definition call_key_hook :: "env \<Rightarrow> nat option \<Rightarrow> string \<Rightarrow> game \<Rightarrow> unit result \<times> game" where
  "call_key_hook e f key g = (case f of None \<Rightarrow> (Return (), g) | Some i \<Rightarrow> key_hook e i key g)"

text \<open>
  The first two steps of an iteration: the \<^verbatim>\<open>preupdate\<close> hook, then, when
  \<^verbatim>\<open>msvcrt.kbhit()\<close> reports a key, \<^verbatim>\<open>on_key\<close> on the symbol \<^verbatim>\<open>_get_input\<close> returned.
  \<open>key\<close> is \<open>None\<close> when no key is waiting.
\<close>

definition before_update :: "env \<Rightarrow> string option \<Rightarrow> game \<Rightarrow> unit result \<times> game" where
  "before_update e key g =
     (case call_hook e (g_preupdate g) g of
        (Raise er, g1) \<Rightarrow> (Raise er, g1)
      | (Return u, g1) \<Rightarrow>
          (case key of
             None \<Rightarrow> (Return (), g1)
           | Some k \<Rightarrow> call_key_hook e (g_on_key g1) k g1))"

text \<open>
  The update step: smart updating redraws when the flag is set and clears it; interval
  updating redraws when \<^verbatim>\<open>iteration % self.interval == 0\<close>; otherwise every iteration
  redraws.
\<close>

definition board_update :: "nat \<Rightarrow> game \<Rightarrow> unit result \<times> game" where
  "board_update iteration g =
     (if g_smart_updating g then
        (if g_pending_update g then
           (case update_and_display_board g of
              (Raise er, g') \<Rightarrow> (Raise er, g')
            | (Return u, g') \<Rightarrow> (Return (), g'\<lparr> g_pending_update := False \<rparr>))
         else (Return (), g))
      else if g_interval_updating g then
        (if g_interval g = 0 then (Raise ZeroDivisionError, g)
         else if int iteration mod g_interval g = 0 then update_and_display_board g
         else (Return (), g))
      else update_and_display_board g)"

text \<open>
  The last steps: the \<^verbatim>\<open>postupdate\<close> hook and \<^verbatim>\<open>time.sleep(self.delay)\<close>, which raises
  \<^verbatim>\<open>ValueError\<close> on a negative delay and \<^verbatim>\<open>OverflowError\<close> on a delay too large for the
  interpreter's timestamp. That largest delay belongs to the interpreter, not to the
  module, and is the \<open>sleep_limit\<close> of the environment.
\<close>

definition after_update :: "env \<Rightarrow> game \<Rightarrow> unit result \<times> game" where
  "after_update e g =
     (case call_hook e (g_postupdate g) g of
        (Raise er, g1) \<Rightarrow> (Raise er, g1)
      | (Return u, g1) \<Rightarrow>
          (if g_delay g1 < 0 then (Raise ValueError, g1)
           else if sleep_limit e < g_delay g1 then (Raise OverflowError, g1)
           else (Return (), g1)))"

definition loop_body :: "env \<Rightarrow> string option \<Rightarrow> nat \<Rightarrow> game \<Rightarrow> unit result \<times> game" where
  "loop_body e key iteration g =
     (case before_update e key g of
        (Raise er, g1) \<Rightarrow> (Raise er, g1)
      | (Return u, g1) \<Rightarrow>
          (case board_update iteration g1 of
             (Raise er, g2) \<Rightarrow> (Raise er, g2)
           | (Return u, g2) \<Rightarrow> after_update e g2))"

text \<open>
  \<^verbatim>\<open>start\<close>, run on the keyboard observations of its first iterations, one per
  iteration. The loop ends when \<^verbatim>\<open>_active\<close> is false at the top of an iteration
  (\<open>Some (Return ())\<close>) or when an iteration raises (\<open>Some (Raise er)\<close>); \<open>None\<close> says the
  loop is still running after the given observations. The number returned is the local
  \<^verbatim>\<open>iteration\<close>.
\<close>

fun start_from :: "env \<Rightarrow> string option list \<Rightarrow> nat \<Rightarrow> game \<Rightarrow> unit result option \<times> nat \<times> game" where
  "start_from e keys iteration g =
     (if \<not> g_active g then (Some (Return ()), iteration, g)
      else (case keys of
              [] \<Rightarrow> (None, iteration, g)
            | key # keys' \<Rightarrow>
                (case loop_body e key iteration g of
                   (Raise er, g') \<Rightarrow> (Some (Raise er), iteration, g')
                 | (Return u, g') \<Rightarrow> start_from e keys' (Suc iteration) g')))"

definition start :: "env \<Rightarrow> string option list \<Rightarrow> game \<Rightarrow> unit result option \<times> nat \<times> game" where
  "start e keys g = start_from e keys 0 g"

section \<open>Example states\<close>

text \<open>
  A list display \<^verbatim>\<open>[[...], [...]]\<close> allocates one new list per row and one for the list
  of rows. \<open>new_game\<close> is \<^verbatim>\<open>ConsoleGame([[...], [...]])\<close> in an empty store with a silent
  console, and \<open>blank_grid\<close> is a grid of single spaces.
\<close>

definition alloc_grid :: "string list list \<Rightarrow> heap \<Rightarrow> addr \<times> heap" where
  "alloc_grid cells h =
     (length (outers h),
      \<lparr> outers = outers h @ [map (\<lambda>i. length (rows h) + i) [0..<length cells]],
        rows = rows h @ cells \<rparr>)"

definition empty_heap :: heap where
  "empty_heap = \<lparr> outers = [], rows = [] \<rparr>"

definition new_game :: "string list list \<Rightarrow> game result" where
  "new_game cells =
     (case alloc_grid cells empty_heap of (board, h) \<Rightarrow> ConsoleGame_init h [] board)"

definition blank_grid :: "nat \<Rightarrow> nat \<Rightarrow> string list list" where
  "blank_grid n m = replicate n (replicate m '' '')"

definition default_player :: "int \<times> int \<Rightarrow> Player" where
  "default_player start_pos =
     Player_init ''@'' start_pos (KeyStr ''up'') (KeyStr ''left'') (KeyStr ''down'')
       (KeyStr ''right'') False None"

definition game_2x3 :: game where
  "game_2x3 =
     \<lparr> g_board = \<lparr> b_board = 0, b_x = 1, b_y = 2, b_copy = 1 \<rparr>, g_players = [],
       g_active = False, g_smart_updating = False, g_interval_updating = False,
       g_interval = 0, g_pending_update = False, g_preupdate = None, g_postupdate = None,
       g_on_key = None, g_delay = 0,
       g_heap = \<lparr> outers = [[0, 1], [2, 3]],
                  rows = [['' '', '' '', '' ''], ['' '', '' '', '' ''],
                          ['' '', '' '', '' ''], ['' '', '' '', '' '']] \<rparr>,
       g_console = [] \<rparr>"

text \<open>
  \<^verbatim>\<open>ConsoleGame([[], ["a"]])\<close>: a grid whose first row is empty, so that the board
  records \<open>y = -1\<close>.
\<close>

definition game_empty_first_row :: game where
  "game_empty_first_row =
     \<lparr> g_board = \<lparr> b_board = 0, b_x = 1, b_y = - 1, b_copy = 1 \<rparr>, g_players = [],
       g_active = False, g_smart_updating = False, g_interval_updating = False,
       g_interval = 0, g_pending_update = False, g_preupdate = None, g_postupdate = None,
       g_on_key = None, g_delay = 0,
       g_heap = \<lparr> outers = [[0, 1], [2, 3]], rows = [[], [''a''], [], [''a'']] \<rparr>,
       g_console = [] \<rparr>"

section \<open>Observations on a run\<close>


text \<open>
  Two game states that differ at most in the attribute \<^verbatim>\<open>interval_updating\<close>, and a
  hook that cannot tell such states apart and leaves \<^verbatim>\<open>interval\<close> at \<open>1\<close>: started in
  states that differ at most in the flag it returns or raises alike and leaves states
  that again differ at most in the flag. The methods of the game are of this kind.
\<close>

definition same_but_interval_flag :: "game \<Rightarrow> game \<Rightarrow> bool" where
  "same_but_interval_flag g1 g2 = (g2 = g1\<lparr> g_interval_updating := g_interval_updating g2 \<rparr>)"

definition flag_blind :: "(game \<Rightarrow> unit result \<times> game) \<Rightarrow> bool" where
  "flag_blind f =
     (\<forall>g1 g2. g_interval g1 = 1 \<and> same_but_interval_flag g1 g2 \<longrightarrow>
        fst (f g1) = fst (f g2) \<and>
        same_but_interval_flag (snd (f g1)) (snd (f g2)) \<and>
        g_interval (snd (f g1)) = 1)"

text \<open>
  The environment in which every hook returns at once, with the limit of an interpreter
  that keeps the delay as a signed 64-bit number of nanoseconds.
\<close>

definition no_hooks :: env where
  "no_hooks =
     \<lparr> hook = (\<lambda>i g. (Return (), g)), key_hook = (\<lambda>i key g. (Return (), g)),
       sleep_limit = 9223372036854775807 / 1000000000 \<rparr>"

section \<open>The clamp policy and the shape of a board\<close>

text \<open>
  The correction of a position in words. A position is \<^verbatim>\<open>pos = [pos[0], pos[1]]\<close>.
  \<^verbatim>\<open>pos[0]\<close> is the coordinate the left and right keys change and the index inside a
  text line: the column, bounded by \<^verbatim>\<open>board.y = len(board[0]) - 1\<close>. \<^verbatim>\<open>pos[1]\<close> is the
  coordinate the up and down keys change and the index of the text line: the row,
  bounded by \<^verbatim>\<open>board.x = len(board) - 1\<close>. The policy tests row too high, column too
  high, row negative, column negative, in this order, and corrects the first that holds.
\<close>

definition corrected_pos :: "int \<Rightarrow> int \<Rightarrow> int \<times> int \<Rightarrow> int \<times> int" where
  "corrected_pos max_row max_col pos =
     (case pos of
        (col, row) \<Rightarrow>
          if row > max_row then (col, max_row)
          else if col > max_col then (max_col, row)
          else if row < 0 then (col, 0)
          else if col < 0 then (0, row)
          else (col, row))"

definition corrected :: "Board \<Rightarrow> Player \<Rightarrow> Player" where
  "corrected b player = player\<lparr> p_pos := corrected_pos (b_x b) (b_y b) (p_pos player) \<rparr>"

text \<open>Within the bounds on both axes, and within the bounds on one axis at least.\<close>

definition in_bounds :: "Board \<Rightarrow> int \<times> int \<Rightarrow> bool" where
  "in_bounds b pos = (0 \<le> fst pos \<and> fst pos \<le> b_y b \<and> 0 \<le> snd pos \<and> snd pos \<le> b_x b)"

definition one_axis_in_bounds :: "Board \<Rightarrow> int \<times> int \<Rightarrow> bool" where
  "one_axis_in_bounds b pos =
     ((0 \<le> fst pos \<and> fst pos \<le> b_y b) \<or> (0 \<le> snd pos \<and> snd pos \<le> b_x b))"

text \<open>
  A grid of \<open>x + 1\<close> rows with \<open>y + 1\<close> cells each, and a game whose baseline is such a
  grid for the \<open>x\<close> and \<open>y\<close> its board recorded, with at least one row and one column.
\<close>

definition shape :: "heap \<Rightarrow> addr \<Rightarrow> int \<Rightarrow> int \<Rightarrow> bool" where
  "shape h g x y =
     (int (length (outers h ! g)) = x + 1 \<and>
      (\<forall>a \<in> set (outers h ! g). a < length (rows h) \<and> int (length (rows h ! a)) = y + 1))"

definition rectangular_game :: "game \<Rightarrow> bool" where
  "rectangular_game g =
     (wf_heap (g_heap g) \<and> b_copy (g_board g) < length (outers (g_heap g)) \<and>
      0 \<le> b_x (g_board g) \<and> 0 \<le> b_y (g_board g) \<and>
      shape (g_heap g) (b_copy (g_board g)) (b_x (g_board g)) (b_y (g_board g)))"

text \<open>The memo of a deep copy in progress maps rows to copies with the same cells.\<close>

definition memo_ok :: "(addr \<times> addr) list \<Rightarrow> string list list \<Rightarrow> bool" where
  "memo_ok memo rws =
     (\<forall>(a, a') \<in> set memo. a < length rws \<and> a' < length rws \<and> rws ! a' = rws ! a)"

text \<open>\<^verbatim>\<open>add_player("@", start_pos)\<close> with the default keys, the game kept.\<close>

definition player_at :: "int \<times> int \<Rightarrow> game \<Rightarrow> game" where
  "player_at start_pos g =
     snd (add_player ''@'' start_pos (KeyStr ''up'') (KeyStr ''left'') (KeyStr ''down'')
            (KeyStr ''right'') False None g)"

section \<open>What a holder of a grid can do to it\<close>

text \<open>
  The ways a program changes a list of rows it holds, each through a list the program
  can name, that is, an allocated one: \<^verbatim>\<open>g[i][j] = v\<close>; \<^verbatim>\<open>g[i] = [...]\<close> with a new
  list; \<^verbatim>\<open>g.append([...])\<close>; \<^verbatim>\<open>g[i] = g2[k]\<close>, which makes two grids share a row; and a
  call of \<^verbatim>\<open>_original()\<close>, whose result is a new list to name. A statement that raises
  changes nothing. \<open>named\<close> are the lists a statement goes through. The baseline
  \<^verbatim>\<open>_copy\<close> is an attribute of the board which the module never hands out.
\<close>

datatype mutation =
    SetCell addr int int string
  | SetRow addr int "string list"
  | AppendRow addr "string list"
  | ShareRow addr int addr int
  | Reset

fun named :: "mutation \<Rightarrow> addr list" where
  "named (SetCell g i j v) = [g]"
| "named (SetRow g i cells) = [g]"
| "named (AppendRow g cells) = [g]"
| "named (ShareRow g i g2 k) = [g, g2]"
| "named Reset = []"

fun mutate :: "Board \<Rightarrow> heap \<Rightarrow> mutation \<Rightarrow> heap" where
  "mutate b h (SetCell g i j v) =
     (if g < length (outers h) then snd (setitem2 h g i j v) else h)"
| "mutate b h (SetRow g i cells) =
     (if g < length (outers h) then
        (case py_index (length (outers h ! g)) i of
           None \<Rightarrow> h
         | Some i' \<Rightarrow>
             \<lparr> outers = (outers h)[g := (outers h ! g)[i' := length (rows h)]],
               rows = rows h @ [cells] \<rparr>)
      else h)"
| "mutate b h (AppendRow g cells) =
     (if g < length (outers h) then
        \<lparr> outers = (outers h)[g := outers h ! g @ [length (rows h)]],
          rows = rows h @ [cells] \<rparr>
      else h)"
| "mutate b h (ShareRow g i g2 k) =
     (if g < length (outers h) \<and> g2 < length (outers h) then
        (case py_index (length (outers h ! g2)) k of
           None \<Rightarrow> h
         | Some k' \<Rightarrow>
             (case py_index (length (outers h ! g)) i of
                None \<Rightarrow> h
              | Some i' \<Rightarrow>
                  \<lparr> outers = (outers h)[g := (outers h ! g)[i' := outers h ! g2 ! k']],
                    rows = rows h \<rparr>))
      else h)"
| "mutate b h Reset = snd (original h b)"

definition mutate_all :: "Board \<Rightarrow> mutation list \<Rightarrow> heap \<Rightarrow> heap" where
  "mutate_all b ms h = fold (\<lambda>m h'. mutate b h' m) ms h"

text \<open>
  The baseline is kept: the store is well formed, the baseline is allocated, no other
  list of rows holds one of the baseline's rows, and the baseline's cells are \<open>cells\<close>.
\<close>

definition baseline_kept :: "heap \<Rightarrow> Board \<Rightarrow> string list list \<Rightarrow> bool" where
  "baseline_kept h b cells =
     (wf_heap h \<and> b_copy b < length (outers h) \<and>
      (\<forall>g < length (outers h). g \<noteq> b_copy b \<longrightarrow>
         set (outers h ! g) \<inter> set (outers h ! b_copy b) = {}) \<and>
      grid_cells h (b_copy b) = cells)"

section \<open>Movement\<close>

lemma new_game_2x3: "new_game (blank_grid 2 3) = Return game_2x3"
  by (simp add: new_game_def blank_grid_def alloc_grid_def empty_heap_def ConsoleGame_init_def
      Board_init_def deepcopy_def game_2x3_def numeral_2_eq_2 numeral_3_eq_3)

lemma new_game_empty_first_row: "new_game [[], [''a'']] = Return game_empty_first_row"
  by (simp add: new_game_def alloc_grid_def empty_heap_def ConsoleGame_init_def
      Board_init_def deepcopy_def game_empty_first_row_def)

text \<open>
  Claim C4, as the code has it. A symbol found in more than one of a player's four key
  collections is resolved by the order of the tests in \<^verbatim>\<open>change_position\<close>, which is
  left, right, up, down: the first of these that holds the symbol gives the delta that
  is applied, \<open>(-1, 0)\<close>, \<open>(1, 0)\<close>, \<open>(0, -1)\<close> or \<open>(0, 1)\<close>, and the call returns \<open>0\<close>.
\<close>

theorem change_position_first_match:
  "(key_in key (p_left p) \<longrightarrow>
      change_position p key = (0, p\<lparr> p_pos := (fst (p_pos p) - 1, snd (p_pos p)) \<rparr>)) \<and>
   (\<not> key_in key (p_left p) \<and> key_in key (p_right p) \<longrightarrow>
      change_position p key = (0, p\<lparr> p_pos := (fst (p_pos p) + 1, snd (p_pos p)) \<rparr>)) \<and>
   (\<not> key_in key (p_left p) \<and> \<not> key_in key (p_right p) \<and> key_in key (p_up p) \<longrightarrow>
      change_position p key = (0, p\<lparr> p_pos := (fst (p_pos p), snd (p_pos p) - 1) \<rparr>)) \<and>
   (\<not> key_in key (p_left p) \<and> \<not> key_in key (p_right p) \<and> \<not> key_in key (p_up p)
      \<and> key_in key (p_down p) \<longrightarrow>
      change_position p key = (0, p\<lparr> p_pos := (fst (p_pos p), snd (p_pos p) + 1) \<rparr>))"
  by (simp add: change_position_def change_position_by_def)

theorem change_position_first_match_witness:
  "key_in ''w'' (p_left (Player_init ''@'' (2, 2) (KeyColl [''w'']) (KeyColl [''w''])
      (KeyColl [''s'']) (KeyColl [''d'']) False None)) \<and>
   key_in ''w'' (p_up (Player_init ''@'' (2, 2) (KeyColl [''w'']) (KeyColl [''w''])
      (KeyColl [''s'']) (KeyColl [''d'']) False None)) \<and>
   p_pos (snd (change_position (Player_init ''@'' (2, 2) (KeyColl [''w'']) (KeyColl [''w''])
      (KeyColl [''s'']) (KeyColl [''d'']) False None) ''w'')) = (1, 2)"
  using change_position_first_match [of "''w''" "Player_init ''@'' (2, 2) (KeyColl [''w''])
      (KeyColl [''w'']) (KeyColl [''s'']) (KeyColl [''d'']) False None"]
  by (simp add: Player_init_def)

text \<open>
  Claim C4 as stated (up is tested before left) fails: with \<^verbatim>\<open>"w"\<close> both an up key and
  a left key, a player at \<open>(2, 2)\<close> does not get the up delta \<open>(0, -1)\<close>.
\<close>

theorem up_before_left_counterexample:
  "key_in ''w'' (p_up (Player_init ''@'' (2, 2) (KeyColl [''w'']) (KeyColl [''w''])
      (KeyColl [''s'']) (KeyColl [''d'']) False None)) \<and>
   key_in ''w'' (p_left (Player_init ''@'' (2, 2) (KeyColl [''w'']) (KeyColl [''w''])
      (KeyColl [''s'']) (KeyColl [''d'']) False None)) \<and>
   p_pos (snd (change_position (Player_init ''@'' (2, 2) (KeyColl [''w'']) (KeyColl [''w''])
      (KeyColl [''s'']) (KeyColl [''d'']) False None) ''w'')) \<noteq> (2, 2 - 1)"
  by (simp add: Player_init_def change_position_def change_position_by_def)

text \<open>
  Claim C5. For a key that none of the player's four key collections holds,
  \<^verbatim>\<open>change_player_position\<close> returns \<open>-1\<close> and leaves the player as it was; and whatever
  the key, the game's \<^verbatim>\<open>_pending_update\<close> is set after the call.
\<close>

theorem change_player_position_ignored:
  "(\<not> key_in key (p_left p) \<and> \<not> key_in key (p_right p) \<and> \<not> key_in key (p_up p)
      \<and> \<not> key_in key (p_down p) \<longrightarrow>
      change_player_position g p key = (-1, p, g\<lparr> g_pending_update := True \<rparr>)) \<and>
   g_pending_update (snd (snd (change_player_position g p key)))"
  by (simp add: change_player_position_def change_position_def)

theorem change_player_position_ignored_witness:
  "\<not> key_in ''q'' (p_left (default_player (0, 0))) \<and>
   \<not> key_in ''q'' (p_right (default_player (0, 0))) \<and>
   \<not> key_in ''q'' (p_up (default_player (0, 0))) \<and>
   \<not> key_in ''q'' (p_down (default_player (0, 0))) \<and>
   \<not> g_pending_update game_2x3 \<and>
   change_player_position game_2x3 (default_player (0, 0)) ''q''
     = (-1, default_player (0, 0), game_2x3\<lparr> g_pending_update := True \<rparr>)"
  using change_player_position_ignored [of "''q''" "default_player (0, 0)" game_2x3]
  by (simp add: default_player_def Player_init_def game_2x3_def)

text \<open>
  Claim C8 as stated fails: the constructor accepts the ragged grid
  \<^verbatim>\<open>[["a", "b"], ["c"]]\<close> and returns a board.
\<close>

theorem ragged_board_counterexample:
  "Board_init \<lparr> outers = [[0, 1]], rows = [[''a'', ''b''], [''c'']] \<rparr> 0 =
     (Return \<lparr> b_board = 0, b_x = 1, b_y = 1, b_copy = 1 \<rparr>,
      \<lparr> outers = [[0, 1], [2, 3]],
        rows = [[''a'', ''b''], [''c''], [''a'', ''b''], [''c'']] \<rparr>)"
  by (simp add: Board_init_def deepcopy_def)

text \<open>
  Claim C8, as the code has it. \<^verbatim>\<open>_Board.__init__\<close> compares no row lengths. It raises
  (\<^verbatim>\<open>IndexError\<close>, from \<^verbatim>\<open>self.board[0]\<close>) exactly when the grid has no rows; every grid
  with at least one row, ragged or not, gives a board with \<open>x = len(board) - 1\<close> and
  \<open>y = len(board[0]) - 1\<close>.
\<close>

theorem Board_init_raises_iff_no_rows:
  "(outers h ! board = [] \<longrightarrow> Board_init h board = (Raise IndexError, h)) \<and>
   (outers h ! board \<noteq> [] \<longrightarrow>
      fst (Board_init h board) =
        Return \<lparr> b_board = board,
                 b_x = int (length (outers h ! board)) - 1,
                 b_y = int (length (rows h ! hd (outers h ! board))) - 1,
                 b_copy = length (outers h) \<rparr>)"
  by (simp add: Board_init_def deepcopy_def split: list.splits prod.splits)

theorem Board_init_raises_iff_no_rows_witness:
  "outers \<lparr> outers = [[0, 1]], rows = [[''a'', ''b''], [''c'']] \<rparr> ! 0 \<noteq> [] \<and>
   outers \<lparr> outers = [[]], rows = [] \<rparr> ! 0 = [] \<and>
   fst (Board_init \<lparr> outers = [[0, 1]], rows = [[''a'', ''b''], [''c'']] \<rparr> 0) =
     Return \<lparr> b_board = 0, b_x = 1, b_y = 1, b_copy = 1 \<rparr> \<and>
   Board_init \<lparr> outers = [[]], rows = [] \<rparr> 0 = (Raise IndexError, \<lparr> outers = [[]], rows = [] \<rparr>)"
  using Board_init_raises_iff_no_rows [of "\<lparr> outers = [[0, 1]], rows = [[''a'', ''b''], [''c'']] \<rparr>" 0]
    Board_init_raises_iff_no_rows [of "\<lparr> outers = [[]], rows = [] \<rparr>" 0]
  by simp

section \<open>The update modes\<close>

lemma redraw_fields:
  "g_smart_updating (snd (update_and_display_board g)) = g_smart_updating g"
  "g_interval_updating (snd (update_and_display_board g)) = g_interval_updating g"
  "g_interval (snd (update_and_display_board g)) = g_interval g"
  "g_pending_update (snd (update_and_display_board g)) = g_pending_update g"
  "g_active (snd (update_and_display_board g)) = g_active g"
  "g_preupdate (snd (update_and_display_board g)) = g_preupdate g"
  "g_postupdate (snd (update_and_display_board g)) = g_postupdate g"
  "g_on_key (snd (update_and_display_board g)) = g_on_key g"
  "g_delay (snd (update_and_display_board g)) = g_delay g"
  by (simp_all add: update_and_display_board_def Let_def split: prod.splits result.splits)


lemma redraw_flag_irrelevant:
  "update_and_display_board (g\<lparr> g_interval_updating := f \<rparr>) =
     (case update_and_display_board g of (r, g') \<Rightarrow> (r, g'\<lparr> g_interval_updating := f \<rparr>))"
  by (simp add: update_and_display_board_def Let_def split: prod.splits result.splits)










lemma same_flagD: "same_but_interval_flag g1 g2 \<Longrightarrow> \<exists>f. g2 = g1\<lparr> g_interval_updating := f \<rparr>"
  unfolding same_but_interval_flag_def by blast

lemma same_flagI: "same_but_interval_flag g (g\<lparr> g_interval_updating := f \<rparr>)"
  by (simp add: same_but_interval_flag_def)

lemma same_flag_refl: "same_but_interval_flag g g"
  by (simp add: same_but_interval_flag_def)

lemma interval_one_update:
  assumes "g_interval g = 1" "\<not> g_smart_updating g" "g_interval_updating g"
  shows "board_update n g = update_and_display_board g"
  using assms by (simp add: board_update_def)

lemma board_update_flag:
  assumes "g_interval g = 1"
  shows "board_update n (g\<lparr> g_interval_updating := f \<rparr>) =
           (case board_update n g of (r, g') \<Rightarrow> (r, g'\<lparr> g_interval_updating := f \<rparr>))"
  using assms
  by (simp add: board_update_def redraw_flag_irrelevant split: prod.splits result.splits)

lemma board_update_interval: "g_interval (snd (board_update n g)) = g_interval g"
  using redraw_fields(3) [of g]
  by (auto simp: board_update_def split: prod.splits result.splits)

lemma flag_blind_board_update: "flag_blind (board_update n)"
  unfolding flag_blind_def
proof (intro allI impI)
  fix g1 g2
  assume h: "g_interval g1 = 1 \<and> same_but_interval_flag g1 g2"
  then obtain f where g2: "g2 = g1\<lparr> g_interval_updating := f \<rparr>"
    using same_flagD by blast
  obtain r g' where b: "board_update n g1 = (r, g')"
    by (cases "board_update n g1")
  have "board_update n g2 = (r, g'\<lparr> g_interval_updating := f \<rparr>)"
    using board_update_flag [of g1 n f] h b g2 by simp
  moreover have "g_interval g' = 1"
    using board_update_interval [of n g1] b h by simp
  ultimately show "fst (board_update n g1) = fst (board_update n g2) \<and>
        same_but_interval_flag (snd (board_update n g1)) (snd (board_update n g2)) \<and>
        g_interval (snd (board_update n g1)) = 1"
    using b by (simp add: same_flagI)
qed

lemma flag_blind_call_hook:
  assumes "\<forall>i. flag_blind (hook e i)" "g_interval g1 = 1" "same_but_interval_flag g1 g2"
  shows "fst (call_hook e f g1) = fst (call_hook e f g2) \<and>
         same_but_interval_flag (snd (call_hook e f g1)) (snd (call_hook e f g2)) \<and>
         g_interval (snd (call_hook e f g1)) = 1"
proof (cases f)
  case None
  with assms show ?thesis by (simp add: call_hook_def)
next
  case (Some i)
  from assms(1) have "flag_blind (hook e i)" by blast
  with assms(2,3) Some show ?thesis
    unfolding flag_blind_def call_hook_def by simp
qed

lemma flag_blind_call_key_hook:
  assumes "\<forall>i k. flag_blind (key_hook e i k)" "g_interval g1 = 1" "same_but_interval_flag g1 g2"
  shows "fst (call_key_hook e f k g1) = fst (call_key_hook e f k g2) \<and>
         same_but_interval_flag (snd (call_key_hook e f k g1)) (snd (call_key_hook e f k g2)) \<and>
         g_interval (snd (call_key_hook e f k g1)) = 1"
proof (cases f)
  case None
  with assms show ?thesis by (simp add: call_key_hook_def)
next
  case (Some i)
  from assms(1) have "flag_blind (key_hook e i k)" by blast
  with assms(2,3) Some show ?thesis
    unfolding flag_blind_def call_key_hook_def by simp
qed

lemma same_flag_fields:
  assumes "same_but_interval_flag g1 g2"
  shows "g_preupdate g2 = g_preupdate g1" "g_postupdate g2 = g_postupdate g1"
    "g_on_key g2 = g_on_key g1" "g_delay g2 = g_delay g1" "g_active g2 = g_active g1"
    "g_console g2 = g_console g1" "g_players g2 = g_players g1" "g_heap g2 = g_heap g1"
    "g_board g2 = g_board g1"
  using same_flagD [OF assms] by auto

lemma flag_blind_before_update:
  assumes "\<forall>i. flag_blind (hook e i)" "\<forall>i k. flag_blind (key_hook e i k)"
    "g_interval g1 = 1" "same_but_interval_flag g1 g2"
  shows "fst (before_update e key g1) = fst (before_update e key g2) \<and>
         same_but_interval_flag (snd (before_update e key g1)) (snd (before_update e key g2)) \<and>
         g_interval (snd (before_update e key g1)) = 1"
proof -
  obtain r1 h1 where c1: "call_hook e (g_preupdate g1) g1 = (r1, h1)"
    by (cases "call_hook e (g_preupdate g1) g1")
  obtain r2 h2 where c2: "call_hook e (g_preupdate g2) g2 = (r2, h2)"
    by (cases "call_hook e (g_preupdate g2) g2")
  have pre: "g_preupdate g2 = g_preupdate g1"
    using same_flag_fields(1) [OF assms(4)] .
  have rel0: "r2 = r1 \<and> same_but_interval_flag h1 h2 \<and> g_interval h1 = 1"
    using flag_blind_call_hook [OF assms(1,3,4), of "g_preupdate g1"] c1 c2 pre by simp
  then have rel: "same_but_interval_flag h1 h2 \<and> g_interval h1 = 1" by simp
  have c2: "call_hook e (g_preupdate g2) g2 = (r1, h2)"
    using c2 rel0 by simp
  show ?thesis
  proof (cases r1)
    case (Raise er)
    with rel c1 c2 show ?thesis by (simp add: before_update_def)
  next
    case (Return u)
    show ?thesis
    proof (cases key)
      case None
      with Return rel c1 c2 show ?thesis by (simp add: before_update_def)
    next
      case (Some k)
      have onk: "g_on_key h2 = g_on_key h1"
        using same_flag_fields(3) rel by blast
      have "fst (call_key_hook e (g_on_key h1) k h1) = fst (call_key_hook e (g_on_key h1) k h2) \<and>
         same_but_interval_flag (snd (call_key_hook e (g_on_key h1) k h1))
           (snd (call_key_hook e (g_on_key h1) k h2)) \<and>
         g_interval (snd (call_key_hook e (g_on_key h1) k h1)) = 1"
        using flag_blind_call_key_hook [OF assms(2)] rel by blast
      with Some Return rel c1 c2 onk show ?thesis by (simp add: before_update_def)
    qed
  qed
qed

lemma flag_blind_after_update:
  assumes "\<forall>i. flag_blind (hook e i)" "g_interval g1 = 1" "same_but_interval_flag g1 g2"
  shows "fst (after_update e g1) = fst (after_update e g2) \<and>
         same_but_interval_flag (snd (after_update e g1)) (snd (after_update e g2)) \<and>
         g_interval (snd (after_update e g1)) = 1"
proof -
  obtain r1 h1 where c1: "call_hook e (g_postupdate g1) g1 = (r1, h1)"
    by (cases "call_hook e (g_postupdate g1) g1")
  obtain r2 h2 where c2: "call_hook e (g_postupdate g2) g2 = (r2, h2)"
    by (cases "call_hook e (g_postupdate g2) g2")
  have post: "g_postupdate g2 = g_postupdate g1"
    using same_flag_fields(2) [OF assms(3)] .
  have rel0: "r2 = r1 \<and> same_but_interval_flag h1 h2 \<and> g_interval h1 = 1"
    using flag_blind_call_hook [OF assms(1,2,3), of "g_postupdate g1"] c1 c2 post by simp
  then have rel: "same_but_interval_flag h1 h2 \<and> g_interval h1 = 1" by simp
  have c2: "call_hook e (g_postupdate g2) g2 = (r1, h2)"
    using c2 rel0 by simp
  have "g_delay h2 = g_delay h1"
    using same_flag_fields(4) rel by blast
  with rel c1 c2 show ?thesis
    by (cases r1) (simp_all add: after_update_def)
qed

lemma flag_blind_loop_body:
  assumes "\<forall>i. flag_blind (hook e i)" "\<forall>i k. flag_blind (key_hook e i k)"
    "g_interval g1 = 1" "same_but_interval_flag g1 g2"
  shows "fst (loop_body e key n g1) = fst (loop_body e key n g2) \<and>
         same_but_interval_flag (snd (loop_body e key n g1)) (snd (loop_body e key n g2)) \<and>
         g_interval (snd (loop_body e key n g1)) = 1"
proof -
  obtain r1 h1 where c1: "before_update e key g1 = (r1, h1)"
    by (cases "before_update e key g1")
  obtain r2 h2 where c2: "before_update e key g2 = (r2, h2)"
    by (cases "before_update e key g2")
  have rel0: "r2 = r1 \<and> same_but_interval_flag h1 h2 \<and> g_interval h1 = 1"
    using flag_blind_before_update [OF assms, of key] c1 c2 by simp
  then have rel: "same_but_interval_flag h1 h2 \<and> g_interval h1 = 1" by simp
  have c2: "before_update e key g2 = (r1, h2)"
    using c2 rel0 by simp
  show ?thesis
  proof (cases r1)
    case (Raise er)
    with rel c1 c2 show ?thesis by (simp add: loop_body_def)
  next
    case (Return u)
    obtain s1 k1 where d1: "board_update n h1 = (s1, k1)"
      by (cases "board_update n h1")
    obtain s2 k2 where d2: "board_update n h2 = (s2, k2)"
      by (cases "board_update n h2")
    have rel3: "s2 = s1 \<and> same_but_interval_flag k1 k2 \<and> g_interval k1 = 1"
      using flag_blind_board_update [of n] rel d1 d2 unfolding flag_blind_def
      by (metis fst_conv snd_conv)
    then have rel2: "same_but_interval_flag k1 k2 \<and> g_interval k1 = 1" by simp
    have d2: "board_update n h2 = (s1, k2)"
      using d2 rel3 by simp
    show ?thesis
    proof (cases s1)
      case (Raise er)
      with Return rel rel2 c1 c2 d1 d2 show ?thesis by (simp add: loop_body_def)
    next
      case Return2: (Return u2)
      have "fst (after_update e k1) = fst (after_update e k2) \<and>
         same_but_interval_flag (snd (after_update e k1)) (snd (after_update e k2)) \<and>
         g_interval (snd (after_update e k1)) = 1"
        using flag_blind_after_update [OF assms(1)] rel2 by blast
      with Return Return2 rel rel2 c1 c2 d1 d2 show ?thesis by (simp add: loop_body_def)
    qed
  qed
qed

lemma flag_blind_start_from:
  assumes "\<forall>i. flag_blind (hook e i)" "\<forall>i k. flag_blind (key_hook e i k)"
  shows "g_interval g1 = 1 \<Longrightarrow> same_but_interval_flag g1 g2 \<Longrightarrow>
         fst (start_from e keys n g1) = fst (start_from e keys n g2) \<and>
         fst (snd (start_from e keys n g1)) = fst (snd (start_from e keys n g2)) \<and>
         same_but_interval_flag (snd (snd (start_from e keys n g1)))
           (snd (snd (start_from e keys n g2)))"
proof (induction keys arbitrary: n g1 g2)
  case Nil
  then show ?case
    using same_flag_fields(5) [of g1 g2] by simp
next
  case (Cons key keys)
  have act: "g_active g2 = g_active g1"
    using same_flag_fields(5) Cons.prems by blast
  show ?case
  proof (cases "g_active g1")
    case False
    with act Cons.prems show ?thesis by simp
  next
    case True
    obtain r1 h1 where c1: "loop_body e key n g1 = (r1, h1)"
      by (cases "loop_body e key n g1")
    obtain r2 h2 where c2: "loop_body e key n g2 = (r2, h2)"
      by (cases "loop_body e key n g2")
    have rel0: "r2 = r1 \<and> same_but_interval_flag h1 h2 \<and> g_interval h1 = 1"
      using flag_blind_loop_body [OF assms Cons.prems, of key n] c1 c2 by simp
    then have rel: "same_but_interval_flag h1 h2 \<and> g_interval h1 = 1" by simp
    have c2: "loop_body e key n g2 = (r1, h2)"
      using c2 rel0 by simp
    show ?thesis
    proof (cases r1)
      case (Raise er)
      with True act rel c1 c2 show ?thesis by simp
    next
      case (Return u)
      have "fst (start_from e keys (Suc n) h1) = fst (start_from e keys (Suc n) h2) \<and>
         fst (snd (start_from e keys (Suc n) h1)) = fst (snd (start_from e keys (Suc n) h2)) \<and>
         same_but_interval_flag (snd (snd (start_from e keys (Suc n) h1)))
           (snd (snd (start_from e keys (Suc n) h2)))"
        using Cons.IH [of h1 h2 "Suc n"] rel by blast
      with Return True act rel c1 c2 show ?thesis by simp
    qed
  qed
qed

lemma flag_blind_no_hook: "flag_blind (\<lambda>g. (Return (), g))"
  by (simp add: flag_blind_def)

lemma flag_blind_quit: "flag_blind (\<lambda>g. (Return (), quit g))"
  unfolding flag_blind_def
proof (intro allI impI)
  fix g1 g2 :: game
  assume h: "g_interval g1 = 1 \<and> same_but_interval_flag g1 g2"
  then obtain f where g2: "g2 = g1\<lparr> g_interval_updating := f \<rparr>"
    using same_flagD by blast
  show "fst (Return (), quit g1) = fst (Return (), quit g2) \<and>
        same_but_interval_flag (snd (Return (), quit g1)) (snd (Return (), quit g2)) \<and>
        g_interval (snd (Return (), quit g1)) = 1"
    using h g2 by (simp add: quit_def same_but_interval_flag_def)
qed

lemma flag_blind_move_listed: "flag_blind (\<lambda>g. (Return (), snd (move_listed i key g)))"
  unfolding flag_blind_def
proof (intro allI impI)
  fix g1 g2 :: game
  assume h: "g_interval g1 = 1 \<and> same_but_interval_flag g1 g2"
  then obtain f where g2: "g2 = g1\<lparr> g_interval_updating := f \<rparr>"
    using same_flagD by blast
  have "snd (move_listed i key g2) = (snd (move_listed i key g1))\<lparr> g_interval_updating := f \<rparr>"
    using g2 by (simp add: move_listed_def change_player_position_def split: prod.splits)
  moreover have "g_interval (snd (move_listed i key g1)) = g_interval g1"
    by (simp add: move_listed_def change_player_position_def split: prod.splits)
  ultimately show "fst (Return (), snd (move_listed i key g1)) =
        fst (Return (), snd (move_listed i key g2)) \<and>
        same_but_interval_flag (snd (Return (), snd (move_listed i key g1)))
          (snd (Return (), snd (move_listed i key g2))) \<and>
        g_interval (snd (Return (), snd (move_listed i key g1))) = 1"
    using h by (simp add: same_flagI)
qed

lemma flag_blind_initialize:
  "flag_blind (\<lambda>g. (Return (), initialize su iu pre post onk d g))"
  unfolding flag_blind_def
proof (intro allI impI)
  fix g1 g2 :: game
  assume h: "g_interval g1 = 1 \<and> same_but_interval_flag g1 g2"
  then obtain f where g2: "g2 = g1\<lparr> g_interval_updating := f \<rparr>"
    using same_flagD by blast
  show "fst (Return (), initialize su iu pre post onk d g1) =
        fst (Return (), initialize su iu pre post onk d g2) \<and>
        same_but_interval_flag (snd (Return (), initialize su iu pre post onk d g1))
          (snd (Return (), initialize su iu pre post onk d g2)) \<and>
        g_interval (snd (Return (), initialize su iu pre post onk d g1)) = 1"
    using g2 by (simp add: initialize_def same_but_interval_flag_def)
qed

text \<open>
  Claim C9. \<^verbatim>\<open>initialize\<close> sets \<^verbatim>\<open>interval\<close> to \<open>1\<close> (it has no parameter for it) and no
  other method assigns it; with interval updating on, smart updating off and the
  interval \<open>1\<close>, the test \<^verbatim>\<open>iteration % self.interval == 0\<close> holds at every iteration
  and the update step is the redraw, as it is in the default mode. Run from
  \<^verbatim>\<open>initialize(interval_updating=True)\<close> and from \<^verbatim>\<open>initialize()\<close> with the same hooks
  and keys, \<^verbatim>\<open>start\<close> ends alike after the same number of iterations, in states (console
  included) that differ at most in the flag.
\<close>

theorem interval_updating_redraws_every_iteration:
  "g_interval (initialize su iu pre post onk d g) = 1 \<and>
   g_interval (quit g) = g_interval g \<and>
   g_interval (snd (snd (change_player_position g p k))) = g_interval g \<and>
   g_interval (snd (add_player c sp mu ml md mr co ca g)) = g_interval g \<and>
   g_interval (snd (update_and_display_board g)) = g_interval g \<and>
   (g_interval g = 1 \<and> \<not> g_smart_updating g \<and> g_interval_updating g \<longrightarrow>
      int n mod g_interval g = 0 \<and>
      board_update n g = update_and_display_board g \<and>
      board_update n (g\<lparr> g_interval_updating := False \<rparr>) =
        update_and_display_board (g\<lparr> g_interval_updating := False \<rparr>)) \<and>
   ((\<forall>i. flag_blind (hook e i)) \<and> (\<forall>i key. flag_blind (key_hook e i key)) \<longrightarrow>
      fst (start e keys (initialize False True pre post onk d g)) =
        fst (start e keys (initialize False False pre post onk d g)) \<and>
      fst (snd (start e keys (initialize False True pre post onk d g))) =
        fst (snd (start e keys (initialize False False pre post onk d g))) \<and>
      same_but_interval_flag
        (snd (snd (start e keys (initialize False True pre post onk d g))))
        (snd (snd (start e keys (initialize False False pre post onk d g)))))"
proof (intro conjI impI)
  show "g_interval (initialize su iu pre post onk d g) = 1"
    by (simp add: initialize_def)
  show "g_interval (quit g) = g_interval g"
    by (simp add: quit_def)
  show "g_interval (snd (snd (change_player_position g p k))) = g_interval g"
    by (simp add: change_player_position_def split: prod.splits)
  show "g_interval (snd (add_player c sp mu ml md mr co ca g)) = g_interval g"
    by (simp add: add_player_def Let_def)
  show "g_interval (snd (update_and_display_board g)) = g_interval g"
    by (rule redraw_fields(3))
next
  assume h: "g_interval g = 1 \<and> \<not> g_smart_updating g \<and> g_interval_updating g"
  then show "int n mod g_interval g = 0" by simp
  from h show "board_update n g = update_and_display_board g"
    by (simp add: interval_one_update)
  from h show "board_update n (g\<lparr> g_interval_updating := False \<rparr>) =
        update_and_display_board (g\<lparr> g_interval_updating := False \<rparr>)"
    by (simp add: board_update_def)
next
  let ?G1 = "initialize False True pre post onk d g"
  let ?G2 = "initialize False False pre post onk d g"
  assume h: "(\<forall>i. flag_blind (hook e i)) \<and> (\<forall>i key. flag_blind (key_hook e i key))"
  have i1: "g_interval ?G1 = 1"
    by (simp add: initialize_def)
  have rel: "same_but_interval_flag ?G1 ?G2"
    by (simp add: same_but_interval_flag_def initialize_def)
  have sim: "fst (start_from e keys 0 ?G1) = fst (start_from e keys 0 ?G2) \<and>
         fst (snd (start_from e keys 0 ?G1)) = fst (snd (start_from e keys 0 ?G2)) \<and>
         same_but_interval_flag (snd (snd (start_from e keys 0 ?G1)))
           (snd (snd (start_from e keys 0 ?G2)))"
    using flag_blind_start_from [OF _ _ i1 rel, of e keys 0] h by blast
  from sim show "fst (start e keys ?G1) = fst (start e keys ?G2)"
    by (simp add: start_def)
  from sim show "fst (snd (start e keys ?G1)) = fst (snd (start e keys ?G2))"
    by (simp add: start_def)
  from sim show "same_but_interval_flag (snd (snd (start e keys ?G1)))
        (snd (snd (start e keys ?G2)))"
    by (simp add: start_def)
qed

theorem interval_updating_redraws_every_iteration_witness:
  "g_interval (initialize False True None None None 0 game_2x3) = 1 \<and>
   \<not> g_smart_updating (initialize False True None None None 0 game_2x3) \<and>
   g_interval_updating (initialize False True None None None 0 game_2x3) \<and>
   board_update 7 (initialize False True None None None 0 game_2x3) =
     update_and_display_board (initialize False True None None None 0 game_2x3) \<and>
   g_console (snd (snd (start no_hooks [None, Some ''a'', None]
       (initialize False True None None None 0 game_2x3)))) =
   g_console (snd (snd (start no_hooks [None, Some ''a'', None]
       (initialize False False None None None 0 game_2x3))))"
proof -
  let ?G1 = "initialize False True None None None 0 game_2x3"
  have fb: "(\<forall>i. flag_blind (hook no_hooks i)) \<and> (\<forall>i key. flag_blind (key_hook no_hooks i key))"
    by (simp add: no_hooks_def flag_blind_no_hook)
  have st: "g_interval ?G1 = 1 \<and> \<not> g_smart_updating ?G1 \<and> g_interval_updating ?G1"
    by (simp add: initialize_def)
  note T = interval_updating_redraws_every_iteration
    [where g = game_2x3 and su = False and iu = True and pre = None and post = None
       and onk = None and d = 0 and e = no_hooks and keys = "[None, Some ''a'', None]"]
  note U = interval_updating_redraws_every_iteration
    [where g = ?G1 and n = 7]
  have rel: "same_but_interval_flag
      (snd (snd (start no_hooks [None, Some ''a'', None]
         (initialize False True None None None 0 game_2x3))))
      (snd (snd (start no_hooks [None, Some ''a'', None]
         (initialize False False None None None 0 game_2x3))))"
    using T fb by blast
  have con: "g_console (snd (snd (start no_hooks [None, Some ''a'', None]
       (initialize False True None None None 0 game_2x3)))) =
   g_console (snd (snd (start no_hooks [None, Some ''a'', None]
       (initialize False False None None None 0 game_2x3))))"
    using same_flag_fields(6) [OF rel] by simp
  have bu: "board_update 7 ?G1 = update_and_display_board ?G1"
    using U st by blast
  show ?thesis
    using st bu con by blast
qed

section \<open>The corrected position\<close>

lemma clamp_corrected:
  "clamp b player =
     (snd (p_pos (corrected b player)), fst (p_pos (corrected b player)), corrected b player)"
  by (cases "p_pos player") (simp add: clamp_def corrected_def corrected_pos_def Let_def)

lemma corrected_in_bounds:
  assumes "0 \<le> b_x b" "0 \<le> b_y b" "one_axis_in_bounds b (p_pos player)"
  shows "in_bounds b (p_pos (corrected b player))"
  using assms
  by (cases "p_pos player")
    (auto simp: corrected_def corrected_pos_def in_bounds_def one_axis_in_bounds_def)

lemma corrected_fields:
  "p_char (corrected b player) = p_char player"
  by (simp add: corrected_def)

lemma display_players_length:
  "display_players b ps h = (r, ps', h') \<Longrightarrow> length ps' = length ps"
proof (induction ps arbitrary: h r ps' h')
  case Nil
  then show ?case by simp
next
  case (Cons player ps)
  then show ?case
    by (auto simp: clamp_corrected split: prod.splits result.splits)
qed

lemma display_players_returned:
  "display_players b ps h = (Return (), ps', h') \<Longrightarrow> ps' = map (corrected b) ps"
proof (induction ps arbitrary: h ps' h')
  case Nil
  then show ?case by simp
next
  case (Cons player ps)
  then show ?case
    by (auto simp: clamp_corrected split: prod.splits result.splits)
qed

lemma display_players_each:
  "display_players b ps h = (r, ps', h') \<Longrightarrow> i < length ps \<Longrightarrow>
     ps' ! i = corrected b (ps ! i) \<or> ps' ! i = ps ! i"
proof (induction ps arbitrary: h r ps' h' i)
  case Nil
  then show ?case by simp
next
  case (Cons player ps)
  show ?case
  proof (cases "setitem2 h (b_board b) (snd (p_pos (corrected b player)))
                  (fst (p_pos (corrected b player))) (p_char (corrected b player))")
    case (Pair s h1)
    show ?thesis
    proof (cases s)
      case (Raise er)
      with Pair Cons.prems show ?thesis
        by (cases i) (auto simp: clamp_corrected)
    next
      case (Return u)
      obtain r2 ps2 h2 where rec: "display_players b ps h1 = (r2, ps2, h2)"
        by (cases "display_players b ps h1")
      with Return Pair Cons.prems have ps': "ps' = corrected b player # ps2"
        by (auto simp: clamp_corrected)
      show ?thesis
      proof (cases i)
        case 0
        with ps' show ?thesis by simp
      next
        case (Suc j)
        with Cons.prems have "j < length ps" by simp
        from Cons.IH [OF rec this] Suc ps' show ?thesis by simp
      qed
    qed
  qed
qed

section \<open>Deep copies and stores into a grid\<close>

lemma deepcopy_rows_prefix:
  "deepcopy_rows memo as rws = (bs, rws') \<Longrightarrow> \<exists>ext. rws' = rws @ ext"
proof (induction as arbitrary: memo rws bs rws')
  case Nil
  then show ?case by simp
next
  case (Cons a as)
  show ?case
  proof (cases "map_of memo a")
    case (Some a')
    obtain bs1 rws1 where rec: "deepcopy_rows memo as rws = (bs1, rws1)"
      by (cases "deepcopy_rows memo as rws")
    with Cons.prems Some have "rws' = rws1" by simp
    with Cons.IH [OF rec] show ?thesis by simp
  next
    case None
    obtain bs1 rws1 where rec:
      "deepcopy_rows ((a, length rws) # memo) as (rws @ [rws ! a]) = (bs1, rws1)"
      by (cases "deepcopy_rows ((a, length rws) # memo) as (rws @ [rws ! a])")
    with Cons.prems None have "rws' = rws1" by simp
    with Cons.IH [OF rec] show ?thesis by auto
  qed
qed

lemma deepcopy_rows_length:
  "deepcopy_rows memo as rws = (bs, rws') \<Longrightarrow> length bs = length as"
proof (induction as arbitrary: memo rws bs rws')
  case Nil
  then show ?case by simp
next
  case (Cons a as)
  then show ?case
    by (auto split: option.splits prod.splits)
qed

lemma memo_ok_extend:
  assumes "memo_ok memo rws" "a < length rws"
  shows "memo_ok ((a, length rws) # memo) (rws @ [rws ! a])"
  using assms by (auto simp: memo_ok_def nth_append)

lemma deepcopy_rows_content:
  "deepcopy_rows memo as rws = (bs, rws') \<Longrightarrow> memo_ok memo rws \<Longrightarrow>
   \<forall>a \<in> set as. a < length rws \<Longrightarrow>
   \<forall>i < length as. bs ! i < length rws' \<and> rws' ! (bs ! i) = rws ! (as ! i)"
proof (induction as arbitrary: memo rws bs rws')
  case Nil
  then show ?case by simp
next
  case (Cons a as)
  have a: "a < length rws" using Cons.prems(3) by simp
  show ?case
  proof (cases "map_of memo a")
    case (Some a')
    obtain bs1 rws1 where rec: "deepcopy_rows memo as rws = (bs1, rws1)"
      by (cases "deepcopy_rows memo as rws")
    with Cons.prems(1) Some have eq: "bs = a' # bs1" "rws' = rws1" by simp_all
    have ih: "\<forall>i < length as. bs1 ! i < length rws1 \<and> rws1 ! (bs1 ! i) = rws ! (as ! i)"
      using Cons.IH [OF rec Cons.prems(2)] Cons.prems(3) by simp
    from Some have "(a, a') \<in> set memo" by (rule map_of_SomeD)
    with Cons.prems(2) have m: "a' < length rws \<and> rws ! a' = rws ! a"
      by (auto simp: memo_ok_def)
    obtain ext where ext: "rws1 = rws @ ext"
      using deepcopy_rows_prefix [OF rec] by blast
    have hd: "a' < length rws1 \<and> rws1 ! a' = rws ! a"
      using m ext by (simp add: nth_append)
    show ?thesis
    proof (intro allI impI)
      fix i assume "i < length (a # as)"
      then show "bs ! i < length rws' \<and> rws' ! (bs ! i) = rws ! ((a # as) ! i)"
        using eq hd ih by (cases i) simp_all
    qed
  next
    case None
    let ?rws1 = "rws @ [rws ! a]"
    obtain bs1 rws2 where rec:
      "deepcopy_rows ((a, length rws) # memo) as ?rws1 = (bs1, rws2)"
      by (cases "deepcopy_rows ((a, length rws) # memo) as ?rws1")
    with Cons.prems(1) None have eq: "bs = length rws # bs1" "rws' = rws2" by simp_all
    have ok: "memo_ok ((a, length rws) # memo) ?rws1"
      using memo_ok_extend [OF Cons.prems(2) a] .
    have valid: "\<forall>a \<in> set as. a < length ?rws1"
      using Cons.prems(3) by auto
    have ih: "\<forall>i < length as. bs1 ! i < length rws2 \<and> rws2 ! (bs1 ! i) = ?rws1 ! (as ! i)"
      using Cons.IH [OF rec ok valid] .
    obtain ext where ext: "rws2 = ?rws1 @ ext"
      using deepcopy_rows_prefix [OF rec] by blast
    have hd: "length rws < length rws2 \<and> rws2 ! (length rws) = rws ! a"
      using ext by (simp add: nth_append)
    show ?thesis
    proof (intro allI impI)
      fix i assume i: "i < length (a # as)"
      show "bs ! i < length rws' \<and> rws' ! (bs ! i) = rws ! ((a # as) ! i)"
      proof (cases i)
        case 0
        with eq hd show ?thesis by simp
      next
        case (Suc j)
        with i have j: "j < length as" by simp
        then have "as ! j < length rws" using Cons.prems(3) by simp
        then have "?rws1 ! (as ! j) = rws ! (as ! j)" by (simp add: nth_append)
        with ih j Suc eq show ?thesis by simp
      qed
    qed
  qed
qed

lemma deepcopy_rows_fresh:
  "deepcopy_rows memo as rws = (bs, rws') \<Longrightarrow> \<forall>(a, a') \<in> set memo. n \<le> a' \<Longrightarrow>
   n \<le> length rws \<Longrightarrow> \<forall>b \<in> set bs. n \<le> b"
proof (induction as arbitrary: memo rws bs rws')
  case Nil
  then show ?case by simp
next
  case (Cons a as)
  show ?case
  proof (cases "map_of memo a")
    case (Some a')
    obtain bs1 rws1 where rec: "deepcopy_rows memo as rws = (bs1, rws1)"
      by (cases "deepcopy_rows memo as rws")
    with Cons.prems(1) Some have eq: "bs = a' # bs1" by simp
    from Some have "(a, a') \<in> set memo" by (rule map_of_SomeD)
    with Cons.prems(2) have "n \<le> a'" by auto
    with Cons.IH [OF rec Cons.prems(2,3)] eq show ?thesis by simp
  next
    case None
    obtain bs1 rws2 where rec:
      "deepcopy_rows ((a, length rws) # memo) as (rws @ [rws ! a]) = (bs1, rws2)"
      by (cases "deepcopy_rows ((a, length rws) # memo) as (rws @ [rws ! a])")
    with Cons.prems(1) None have eq: "bs = length rws # bs1" by simp
    have "\<forall>(a, a') \<in> set ((a, length rws) # memo). n \<le> a'"
      using Cons.prems(2,3) by auto
    moreover have "n \<le> length (rws @ [rws ! a])"
      using Cons.prems(3) by simp
    ultimately have "\<forall>b \<in> set bs1. n \<le> b"
      using Cons.IH [OF rec] by blast
    with eq Cons.prems(3) show ?thesis by simp
  qed
qed

lemma deepcopy_alloc:
  assumes "deepcopy h g = (w, h')"
  shows "w = length (outers h)" "\<exists>bs. outers h' = outers h @ [bs]" "\<exists>ext. rows h' = rows h @ ext"
proof -
  obtain bs rws' where r: "deepcopy_rows [] (outers h ! g) (rows h) = (bs, rws')"
    by (cases "deepcopy_rows [] (outers h ! g) (rows h)")
  with assms have h': "h' = \<lparr> outers = outers h @ [bs], rows = rws' \<rparr>" and w: "w = length (outers h)"
    by (simp_all add: deepcopy_def)
  show "w = length (outers h)" by (rule w)
  show "\<exists>bs. outers h' = outers h @ [bs]" using h' by simp
  show "\<exists>ext. rows h' = rows h @ ext"
    using deepcopy_rows_prefix [OF r] h' by simp
qed

lemma deepcopy_frame:
  assumes "deepcopy h g = (w, h')"
  shows "g0 < length (outers h) \<Longrightarrow> outers h' ! g0 = outers h ! g0"
    and "a < length (rows h) \<Longrightarrow> rows h' ! a = rows h ! a"
    and "length (outers h') = Suc (length (outers h))"
    and "length (rows h) \<le> length (rows h')"
  using deepcopy_alloc(2,3) [OF assms] by (auto simp: nth_append)

lemma deepcopy_copy:
  assumes "deepcopy h g = (w, h')" "wf_heap h" "g < length (outers h)"
  shows "length (outers h' ! w) = length (outers h ! g)"
    and "\<forall>i < length (outers h ! g).
           outers h' ! w ! i < length (rows h') \<and>
           rows h' ! (outers h' ! w ! i) = rows h ! (outers h ! g ! i)"
    and "\<forall>b \<in> set (outers h' ! w). length (rows h) \<le> b"
proof -
  obtain bs rws' where r: "deepcopy_rows [] (outers h ! g) (rows h) = (bs, rws')"
    by (cases "deepcopy_rows [] (outers h ! g) (rows h)")
  with assms(1) have h': "h' = \<lparr> outers = outers h @ [bs], rows = rws' \<rparr>" and w: "w = length (outers h)"
    by (simp_all add: deepcopy_def)
  have bs: "outers h' ! w = bs" using h' w by simp
  have valid: "\<forall>a \<in> set (outers h ! g). a < length (rows h)"
    using assms(2,3) by (auto simp: wf_heap_def)
  show "length (outers h' ! w) = length (outers h ! g)"
    using deepcopy_rows_length [OF r] bs by simp
  show "\<forall>i < length (outers h ! g).
           outers h' ! w ! i < length (rows h') \<and>
           rows h' ! (outers h' ! w ! i) = rows h ! (outers h ! g ! i)"
    using deepcopy_rows_content [OF r _ valid] bs h' by (simp add: memo_ok_def)
  show "\<forall>b \<in> set (outers h' ! w). length (rows h) \<le> b"
    using deepcopy_rows_fresh [OF r, of "length (rows h)"] bs by simp
qed

lemma deepcopy_wf:
  assumes "deepcopy h g = (w, h')" "wf_heap h" "g < length (outers h)"
  shows "wf_heap h'"
proof -
  obtain bs where o: "outers h' = outers h @ [bs]"
    using deepcopy_alloc(2) [OF assms(1)] by blast
  have w: "w = length (outers h)" using deepcopy_alloc(1) [OF assms(1)] .
  have bs: "outers h' ! w = bs" using o w by simp
  have le: "length (rows h) \<le> length (rows h')" using deepcopy_frame(4) [OF assms(1)] .
  have new: "\<forall>b \<in> set bs. b < length (rows h')"
  proof
    fix b assume "b \<in> set bs"
    then obtain i where i: "i < length bs" "bs ! i = b" by (auto simp: in_set_conv_nth)
    then have "i < length (outers h ! g)"
      using deepcopy_copy(1) [OF assms] bs by simp
    then show "b < length (rows h')"
      using deepcopy_copy(2) [OF assms] bs i by auto
  qed
  show ?thesis
    unfolding wf_heap_def
  proof (intro ballI)
    fix rs a assume rs: "rs \<in> set (outers h')" and a: "a \<in> set rs"
    from rs o have "rs \<in> set (outers h) \<or> rs = bs" by auto
    then show "a < length (rows h')"
    proof
      assume "rs \<in> set (outers h)"
      with assms(2) a have "a < length (rows h)" by (auto simp: wf_heap_def)
      with le show ?thesis by simp
    next
      assume "rs = bs"
      with new a show ?thesis by simp
    qed
  qed
qed

lemma deepcopy_cells:
  assumes "deepcopy h g = (w, h')" "wf_heap h" "g < length (outers h)"
  shows "grid_cells h' w = grid_cells h g"
  unfolding grid_cells_def
  using deepcopy_copy(1,2) [OF assms] by (auto intro: nth_equalityI)

lemma grid_str_cells: "grid_str h g = concat (map (\<lambda>r. concat r @ [CHR 0x0A]) (grid_cells h g))"
  by (simp add: grid_str_def grid_cells_def comp_def)

lemma deepcopy_shape:
  assumes "deepcopy h g = (w, h')" "wf_heap h" "g < length (outers h)" "shape h g x y"
  shows "shape h' w x y"
  unfolding shape_def
proof (intro conjI ballI)
  show "int (length (outers h' ! w)) = x + 1"
    using deepcopy_copy(1) [OF assms(1-3)] assms(4) by (simp add: shape_def)
next
  fix b assume "b \<in> set (outers h' ! w)"
  then obtain i where i: "i < length (outers h' ! w)" "outers h' ! w ! i = b"
    by (auto simp: in_set_conv_nth)
  then have ig: "i < length (outers h ! g)"
    using deepcopy_copy(1) [OF assms(1-3)] by simp
  then have c: "b < length (rows h') \<and> rows h' ! b = rows h ! (outers h ! g ! i)"
    using deepcopy_copy(2) [OF assms(1-3)] i by auto
  from ig have "outers h ! g ! i \<in> set (outers h ! g)" by simp
  with assms(4) have "int (length (rows h ! (outers h ! g ! i))) = y + 1"
    by (simp add: shape_def)
  with c show "b < length (rows h')" and "int (length (rows h' ! b)) = y + 1" by simp_all
qed

lemma setitem2_in_range:
  assumes "shape h g x y" "0 \<le> i" "i \<le> x" "0 \<le> j" "j \<le> y"
  shows "\<exists>h'. setitem2 h g i j v = (Return (), h') \<and> shape h' g x y"
proof -
  have len: "int (length (outers h ! g)) = x + 1" using assms(1) by (simp add: shape_def)
  with assms(2,3) have pi: "py_index (length (outers h ! g)) i = Some (nat i)"
    by (simp add: py_index_def)
  let ?a = "outers h ! g ! nat i"
  have "nat i < length (outers h ! g)" using len assms(2,3) by linarith
  then have mem: "?a \<in> set (outers h ! g)" by simp
  with assms(1) have a: "?a < length (rows h)" "int (length (rows h ! ?a)) = y + 1"
    by (simp_all add: shape_def)
  with assms(4,5) have pj: "py_index (length (rows h ! ?a)) j = Some (nat j)"
    by (simp add: py_index_def)
  let ?h' = "h\<lparr> rows := (rows h)[?a := (rows h ! ?a)[nat j := v]] \<rparr>"
  have s: "setitem2 h g i j v = (Return (), ?h')"
    using pi pj by (simp add: setitem2_def Let_def)
  have "shape ?h' g x y"
    unfolding shape_def
  proof (intro conjI ballI)
    show "int (length (outers ?h' ! g)) = x + 1" using len by simp
  next
    fix b assume "b \<in> set (outers ?h' ! g)"
    then have b: "b < length (rows h)" "int (length (rows h ! b)) = y + 1"
      using assms(1) by (simp_all add: shape_def)
    then show "b < length (rows ?h')" by simp
    show "int (length (rows ?h' ! b)) = y + 1"
      using b a by (cases "b = ?a") simp_all
  qed
  with s show ?thesis by blast
qed

lemma display_players_returns:
  "shape h (b_board b) (b_x b) (b_y b) \<Longrightarrow> 0 \<le> b_x b \<Longrightarrow> 0 \<le> b_y b \<Longrightarrow>
   \<forall>p \<in> set ps. one_axis_in_bounds b (p_pos p) \<Longrightarrow>
   fst (display_players b ps h) = Return ()"
proof (induction ps arbitrary: h)
  case Nil
  then show ?case by simp
next
  case (Cons player ps)
  let ?c = "corrected b player"
  have "in_bounds b (p_pos ?c)"
    using corrected_in_bounds [of b player] Cons.prems by simp
  then have "0 \<le> snd (p_pos ?c)" "snd (p_pos ?c) \<le> b_x b" "0 \<le> fst (p_pos ?c)"
    "fst (p_pos ?c) \<le> b_y b"
    by (simp_all add: in_bounds_def)
  from setitem2_in_range [OF Cons.prems(1) this, of "p_char ?c"]
  obtain h' where s: "setitem2 h (b_board b) (snd (p_pos ?c)) (fst (p_pos ?c)) (p_char ?c)
      = (Return (), h')" and sh: "shape h' (b_board b) (b_x b) (b_y b)"
    by blast
  obtain r ps' h'' where rec: "display_players b ps h' = (r, ps', h'')"
    by (cases "display_players b ps h'")
  have "fst (display_players b ps h') = Return ()"
    using Cons.IH [OF sh] Cons.prems by simp
  with rec have "r = Return ()" by simp
  with rec s show ?case
    by (simp add: clamp_corrected)
qed

section \<open>The redraw and the bounds\<close>

lemma corrected_board: "corrected (b\<lparr> b_board := w \<rparr>) = corrected b"
  by (rule ext) (simp add: corrected_def)

lemma redraw_players:
  assumes "update_and_display_board g = (r, g')"
  shows "\<exists>w h1 h2. original (g_heap g) (g_board g) = (w, h1) \<and>
           display_players ((g_board g)\<lparr> b_board := w \<rparr>) (g_players g) h1 = (r, g_players g', h2) \<and>
           g_heap g' = h2 \<and> g_board g' = (g_board g)\<lparr> b_board := w \<rparr>"
proof -
  obtain w h1 where o: "original (g_heap g) (g_board g) = (w, h1)"
    by (cases "original (g_heap g) (g_board g)")
  obtain r2 ps h2 where d:
    "display_players ((g_board g)\<lparr> b_board := w \<rparr>) (g_players g) h1 = (r2, ps, h2)"
    by (cases "display_players ((g_board g)\<lparr> b_board := w \<rparr>) (g_players g) h1") auto
  from assms o d have "r = r2 \<and> g_players g' = ps \<and> g_heap g' = h2 \<and>
      g_board g' = (g_board g)\<lparr> b_board := w \<rparr>"
    by (cases r2) (auto simp: update_and_display_board_def Let_def)
  with o d show ?thesis by blast
qed

text \<open>
  Claim C3, as the code has it. In a redraw the tests on a player are exclusive and come
  in the order row too high (\<^verbatim>\<open>pos[1] > board.x\<close>), column too high
  (\<^verbatim>\<open>pos[0] > board.y\<close>), row negative, column negative. The first that holds is
  corrected: a coordinate beyond its maximum lands on the maximum (the overflow is
  subtracted), a negative one is set to \<open>0\<close>; the other coordinate is left as it is,
  so at most one axis is corrected per redraw. The corrected position is the one the
  glyph is stored at and the one assigned to the player: after a redraw that returns every
  player holds its corrected position, and after one that raises every player holds
  either its corrected position or, past the player that raised, its old one.
\<close>

theorem redraw_corrects_one_axis:
  "clamp b player =
     (snd (corrected_pos (b_x b) (b_y b) (p_pos player)),
      fst (corrected_pos (b_x b) (b_y b) (p_pos player)),
      player\<lparr> p_pos := corrected_pos (b_x b) (b_y b) (p_pos player) \<rparr>) \<and>
   (update_and_display_board g = (r, g') \<longrightarrow>
      length (g_players g') = length (g_players g) \<and>
      (r = Return () \<longrightarrow> g_players g' = map (corrected (g_board g)) (g_players g)) \<and>
      (\<forall>i < length (g_players g).
         g_players g' ! i = corrected (g_board g) (g_players g ! i) \<or>
         g_players g' ! i = g_players g ! i)) \<and>
   (max_row < row \<longrightarrow> corrected_pos max_row max_col (col, row) = (col, max_row)) \<and>
   (row \<le> max_row \<and> max_col < col \<longrightarrow>
      corrected_pos max_row max_col (col, row) = (max_col, row)) \<and>
   (row \<le> max_row \<and> col \<le> max_col \<and> row < 0 \<longrightarrow>
      corrected_pos max_row max_col (col, row) = (col, 0)) \<and>
   (0 \<le> row \<and> row \<le> max_row \<and> col \<le> max_col \<and> col < 0 \<longrightarrow>
      corrected_pos max_row max_col (col, row) = (0, row)) \<and>
   (0 \<le> row \<and> row \<le> max_row \<and> 0 \<le> col \<and> col \<le> max_col \<longrightarrow>
      corrected_pos max_row max_col (col, row) = (col, row)) \<and>
   (fst (corrected_pos max_row max_col (col, row)) = col \<or>
    snd (corrected_pos max_row max_col (col, row)) = row)"
proof (intro conjI impI)
  show "clamp b player =
     (snd (corrected_pos (b_x b) (b_y b) (p_pos player)),
      fst (corrected_pos (b_x b) (b_y b) (p_pos player)),
      player\<lparr> p_pos := corrected_pos (b_x b) (b_y b) (p_pos player) \<rparr>)"
    using clamp_corrected [of b player] by (simp add: corrected_def)
next
  assume u: "update_and_display_board g = (r, g')"
  from redraw_players [OF u] obtain w h1 h2 where
    d: "display_players ((g_board g)\<lparr> b_board := w \<rparr>) (g_players g) h1 = (r, g_players g', h2)"
    by blast
  show "length (g_players g') = length (g_players g)"
    using display_players_length [OF d] .
  show "g_players g' = map (corrected (g_board g)) (g_players g)" if "r = Return ()"
    using display_players_returned [of "(g_board g)\<lparr> b_board := w \<rparr>"] d that
    by (simp add: corrected_board)
  show "\<forall>i < length (g_players g).
         g_players g' ! i = corrected (g_board g) (g_players g ! i) \<or>
         g_players g' ! i = g_players g ! i"
    using display_players_each [OF d] by (simp add: corrected_board)
qed (auto simp: corrected_pos_def)

lemma player_at_game_2x3:
  "player_at start_pos game_2x3 = game_2x3\<lparr> g_players := [default_player start_pos] \<rparr>"
  by (simp add: player_at_def add_player_def default_player_def game_2x3_def Let_def)

lemmas redraw_eval =
  player_at_def add_player_def update_and_display_board_def original_def deepcopy_def clamp_def
  default_player_def Player_init_def Board_str_def grid_str_def setitem2_def py_index_def
  game_2x3_def Let_def

theorem redraw_corrects_one_axis_witness:
  "fst (update_and_display_board (player_at (4, 0) game_2x3)) = Return () \<and>
   map p_pos (g_players (snd (update_and_display_board (player_at (4, 0) game_2x3)))) = [(2, 0)] \<and>
   b_x (g_board (player_at (4, 0) game_2x3)) < 5 \<and>
   corrected_pos (b_x (g_board (player_at (4, 0) game_2x3)))
     (b_y (g_board (player_at (4, 0) game_2x3))) (7, 5) = (7, 1)"
proof -
  let ?G = "player_at (4, 0) game_2x3"
  have r: "fst (update_and_display_board ?G) = Return ()"
    by (simp add: redraw_eval)
  have b: "b_x (g_board ?G) = 1" "b_y (g_board ?G) = 2"
    by (simp_all add: player_at_game_2x3) (simp_all add: game_2x3_def)
  have p: "g_players ?G = [default_player (4, 0)]"
    by (simp add: player_at_game_2x3)
  have u: "update_and_display_board ?G = (Return (), snd (update_and_display_board ?G))"
    using r by (metis prod.collapse)
  note T = redraw_corrects_one_axis
    [where g = ?G and r = "Return ()"
       and g' = "snd (update_and_display_board ?G)" and max_row = 1 and max_col = 2
       and row = 5 and col = 7 and b = "g_board ?G" and player = "default_player (4, 0)"]
  have "g_players (snd (update_and_display_board ?G)) =
          map (corrected (g_board ?G)) (g_players ?G)"
    using T u by blast
  then have 1: "map p_pos (g_players (snd (update_and_display_board ?G))) = [(2, 0)]"
    using p b by (simp add: corrected_def corrected_pos_def default_player_def Player_init_def)
  have 2: "corrected_pos 1 2 (7, 5) = (7, 1)"
    using T by simp
  show ?thesis
    using r 1 2 b by simp
qed

text \<open>
  Claim C3 as stated (column first) fails on a board of two lines of three cells. A
  player at \<^verbatim>\<open>pos = [-1, -1]\<close> keeps its negative column \<^verbatim>\<open>pos[0]\<close>: the row
  \<^verbatim>\<open>pos[1]\<close> is the one set to \<open>0\<close>. A player at \<^verbatim>\<open>pos = [0, 5]\<close> gets \<^verbatim>\<open>pos[1]\<close>
  set to \<open>1\<close>, the last line, not to \<open>2\<close>, the last column.
\<close>

theorem column_tested_first_counterexample:
  "int (length (outers (g_heap game_2x3) ! b_copy (g_board game_2x3))) = 2 \<and>
   int (length (rows (g_heap game_2x3) ! 2)) = 3 \<and>
   fst (update_and_display_board (player_at (-1, -1) game_2x3)) = Return () \<and>
   map p_pos (g_players (snd (update_and_display_board (player_at (-1, -1) game_2x3))))
     = [(-1, 0)] \<and>
   map p_pos (g_players (snd (update_and_display_board (player_at (0, 5) game_2x3))))
     = [(0, 1)]"
  by (simp add: redraw_eval)

text \<open>
  Claim C2 fails on the code. On a board of two lines of three cells a player in the
  bottom right corner, \<^verbatim>\<open>pos = [2, 1]\<close>, moved right and down before the next redraw
  stands at \<^verbatim>\<open>[3, 2]\<close>; the redraw corrects the row only and the store into the grid
  raises \<^verbatim>\<open>IndexError\<close>.
\<close>

theorem redraw_raises_past_the_corner:
  "p_pos (g_players (snd (move_listed 0 ''down'' (snd (move_listed 0 ''right''
      (player_at (2, 1) game_2x3))))) ! 0) = (3, 2) \<and>
   fst (update_and_display_board (snd (move_listed 0 ''down'' (snd (move_listed 0 ''right''
      (player_at (2, 1) game_2x3)))))) = Raise IndexError"
  by (simp add: move_listed_def change_player_position_def change_position_def
      change_position_by_def redraw_eval)

lemma py_index_less: "py_index n i = Some k \<Longrightarrow> k < n"
  by (auto simp: py_index_def split: if_splits)

lemma setitem2_frame:
  assumes "setitem2 h g i j v = (r, h')"
  shows "outers h' = outers h" "length (rows h') = length (rows h)"
    "a \<notin> set (outers h ! g) \<Longrightarrow> rows h' ! a = rows h ! a"
proof -
  show "outers h' = outers h" "length (rows h') = length (rows h)"
    using assms by (auto simp: setitem2_def Let_def split: option.splits)
  assume a: "a \<notin> set (outers h ! g)"
  show "rows h' ! a = rows h ! a"
  proof (cases "py_index (length (outers h ! g)) i")
    case None
    with assms show ?thesis by (simp add: setitem2_def)
  next
    case (Some i')
    then have "outers h ! g ! i' \<in> set (outers h ! g)"
      using py_index_less by simp
    with a have "outers h ! g ! i' \<noteq> a" by blast
    with assms Some show ?thesis
      by (auto simp: setitem2_def Let_def split: option.splits)
  qed
qed

lemma display_players_frame:
  "display_players b ps h = (r, ps', h') \<Longrightarrow>
     outers h' = outers h \<and> length (rows h') = length (rows h) \<and>
     (\<forall>a. a \<notin> set (outers h ! b_board b) \<longrightarrow> rows h' ! a = rows h ! a)"
proof (induction ps arbitrary: h r ps' h')
  case Nil
  then show ?case by simp
next
  case (Cons player ps)
  let ?c = "corrected b player"
  obtain s h1 where st:
    "setitem2 h (b_board b) (snd (p_pos ?c)) (fst (p_pos ?c)) (p_char ?c) = (s, h1)"
    by (cases "setitem2 h (b_board b) (snd (p_pos ?c)) (fst (p_pos ?c)) (p_char ?c)")
  note f = setitem2_frame [OF st]
  show ?case
  proof (cases s)
    case (Raise er)
    with st Cons.prems have "h' = h1" by (simp add: clamp_corrected)
    with f show ?thesis by simp
  next
    case (Return u)
    obtain r2 ps2 h2 where rec: "display_players b ps h1 = (r2, ps2, h2)"
      by (cases "display_players b ps h1")
    with Return st Cons.prems have "h' = h2" by (simp add: clamp_corrected)
    with Cons.IH [OF rec] f show ?thesis by simp
  qed
qed

lemma one_axis_board:
  "one_axis_in_bounds (b\<lparr> b_board := w \<rparr>) = one_axis_in_bounds b"
  "in_bounds (b\<lparr> b_board := w \<rparr>) = in_bounds b"
  by (rule ext, simp add: one_axis_in_bounds_def in_bounds_def)+

lemma redraw_returns:
  assumes "rectangular_game g"
    "\<forall>p \<in> set (g_players g). one_axis_in_bounds (g_board g) (p_pos p)"
  shows "fst (update_and_display_board g) = Return ()"
proof -
  obtain r g' where u: "update_and_display_board g = (r, g')"
    by (cases "update_and_display_board g")
  from redraw_players [OF u] obtain w h1 h2 where
    o: "original (g_heap g) (g_board g) = (w, h1)" and
    d: "display_players ((g_board g)\<lparr> b_board := w \<rparr>) (g_players g) h1 = (r, g_players g', h2)"
    by blast
  let ?b = "(g_board g)\<lparr> b_board := w \<rparr>"
  from assms(1) have wf: "wf_heap (g_heap g)" and c: "b_copy (g_board g) < length (outers (g_heap g))"
    and x: "0 \<le> b_x (g_board g)" and y: "0 \<le> b_y (g_board g)"
    and sh: "shape (g_heap g) (b_copy (g_board g)) (b_x (g_board g)) (b_y (g_board g))"
    by (simp_all add: rectangular_game_def)
  have "shape h1 w (b_x (g_board g)) (b_y (g_board g))"
    using deepcopy_shape [OF o [unfolded original_def] wf c sh] .
  then have "fst (display_players ?b (g_players g) h1) = Return ()"
    using display_players_returns [of h1 ?b "g_players g"] x y assms(2)
    by (simp add: one_axis_board)
  with d u show ?thesis by simp
qed

lemma redraw_keeps_rectangular:
  assumes "rectangular_game g"
  shows "rectangular_game (snd (update_and_display_board g))"
proof -
  obtain r g' where u: "update_and_display_board g = (r, g')"
    by (cases "update_and_display_board g")
  from redraw_players [OF u] obtain w h1 h2 where
    o: "original (g_heap g) (g_board g) = (w, h1)" and
    d: "display_players ((g_board g)\<lparr> b_board := w \<rparr>) (g_players g) h1 = (r, g_players g', h2)"
    and hp: "g_heap g' = h2" and bd: "g_board g' = (g_board g)\<lparr> b_board := w \<rparr>"
    by blast
  let ?h = "g_heap g" and ?c = "b_copy (g_board g)"
  from assms(1) have wf: "wf_heap ?h" and c: "?c < length (outers ?h)"
    and x: "0 \<le> b_x (g_board g)" and y: "0 \<le> b_y (g_board g)"
    and sh: "shape ?h ?c (b_x (g_board g)) (b_y (g_board g))"
    by (simp_all add: rectangular_game_def)
  note dc = o [unfolded original_def]
  have wf1: "wf_heap h1" using deepcopy_wf [OF dc wf c] .
  have w: "w = length (outers ?h)" using deepcopy_alloc(1) [OF dc] .
  have fr: "outers h2 = outers h1" "length (rows h2) = length (rows h1)"
    "\<forall>a. a \<notin> set (outers h1 ! w) \<longrightarrow> rows h2 ! a = rows h1 ! a"
    using display_players_frame [OF d] by simp_all
  have wf2: "wf_heap h2"
    using wf1 fr(1,2) by (simp add: wf_heap_def)
  have c2: "?c < length (outers h2)"
    using fr(1) deepcopy_frame(3) [OF dc] c by simp
  have oc: "outers h2 ! ?c = outers ?h ! ?c"
    using fr(1) deepcopy_frame(1) [OF dc c] by simp
  have "shape h2 ?c (b_x (g_board g)) (b_y (g_board g))"
    unfolding shape_def
  proof (intro conjI ballI)
    show "int (length (outers h2 ! ?c)) = b_x (g_board g) + 1"
      using oc sh by (simp add: shape_def)
  next
    fix a assume "a \<in> set (outers h2 ! ?c)"
    then have a: "a \<in> set (outers ?h ! ?c)" using oc by simp
    with sh have al: "a < length (rows ?h)" and ay: "int (length (rows ?h ! a)) = b_y (g_board g) + 1"
      by (simp_all add: shape_def)
    have "a \<notin> set (outers h1 ! w)"
      using deepcopy_copy(3) [OF dc wf c] al by auto
    then have "rows h2 ! a = rows h1 ! a" using fr(3) by simp
    also have "\<dots> = rows ?h ! a" using deepcopy_frame(2) [OF dc al] .
    finally have eq: "rows h2 ! a = rows ?h ! a" .
    show "a < length (rows h2)"
      using al fr(2) deepcopy_frame(4) [OF dc] by simp
    show "int (length (rows h2 ! a)) = b_y (g_board g) + 1"
      using eq ay by simp
  qed
  with wf2 c2 x y hp bd u show ?thesis
    by (simp add: rectangular_game_def)
qed

lemma Board_init_bounds:
  assumes "Board_init h board = (Return b, h')"
  shows "0 \<le> b_x b" "(0 \<le> b_y b) = (rows h ! hd (outers h ! board) \<noteq> [])"
proof -
  from assms obtain r0 rs where rows: "outers h ! board = r0 # rs"
    by (auto simp: Board_init_def split: list.splits)
  with assms have x: "b_x b = int (length (outers h ! board)) - 1"
    and y: "b_y b = int (length (rows h ! r0)) - 1"
    by (auto simp: Board_init_def split: prod.splits)
  show "0 \<le> b_x b" using x rows by simp
  show "(0 \<le> b_y b) = (rows h ! hd (outers h ! board) \<noteq> [])"
    using y rows by (cases "rows h ! r0") simp_all
qed

text \<open>
  Claim C1, as the code has it. Take a board that recorded \<open>x \<ge> 0\<close> and \<open>y \<ge> 0\<close>; the
  constructor always records \<open>x \<ge> 0\<close>, and \<open>y \<ge> 0\<close> exactly when the first row of the
  grid is not empty. Whenever a redraw returns, a player that was within the bounds on
  at least one axis is within the bounds on both afterwards. When moreover the baseline
  is rectangular and every player is within the bounds on at least one axis, the redraw
  does return, and leaves every player within the bounds on both. A redraw keeps the
  baseline rectangular.
\<close>

theorem redraw_puts_in_bounds:
  "(rectangular_game g \<and>
    (\<forall>p \<in> set (g_players g). one_axis_in_bounds (g_board g) (p_pos p)) \<longrightarrow>
      fst (update_and_display_board g) = Return () \<and>
      (\<forall>p \<in> set (g_players (snd (update_and_display_board g))).
         in_bounds (g_board g) (p_pos p))) \<and>
   (0 \<le> b_x (g_board g) \<and> 0 \<le> b_y (g_board g) \<and>
    fst (update_and_display_board g) = Return () \<and> i < length (g_players g) \<and>
    one_axis_in_bounds (g_board g) (p_pos (g_players g ! i)) \<longrightarrow>
      in_bounds (g_board g) (p_pos (g_players (snd (update_and_display_board g)) ! i))) \<and>
   (rectangular_game g \<longrightarrow> rectangular_game (snd (update_and_display_board g))) \<and>
   (Board_init h board = (Return b, h') \<longrightarrow>
      0 \<le> b_x b \<and> (0 \<le> b_y b) = (rows h ! hd (outers h ! board) \<noteq> []))"
proof (intro conjI impI)
  obtain r g' where u: "update_and_display_board g = (r, g')"
    by (cases "update_and_display_board g")
  from redraw_players [OF u] obtain w h1 h2 where
    d: "display_players ((g_board g)\<lparr> b_board := w \<rparr>) (g_players g) h1 = (r, g_players g', h2)"
    by blast
  have ret: "g_players g' = map (corrected (g_board g)) (g_players g)" if "r = Return ()"
    using display_players_returned [of "(g_board g)\<lparr> b_board := w \<rparr>"] d that
    by (simp add: corrected_board)
  {
    assume h: "rectangular_game g \<and>
      (\<forall>p \<in> set (g_players g). one_axis_in_bounds (g_board g) (p_pos p))"
    then show r: "fst (update_and_display_board g) = Return ()"
      using redraw_returns by blast
    from h have xy: "0 \<le> b_x (g_board g)" "0 \<le> b_y (g_board g)"
      by (simp_all add: rectangular_game_def)
    from r u have "g_players g' = map (corrected (g_board g)) (g_players g)"
      using ret by simp
    then show "\<forall>p \<in> set (g_players (snd (update_and_display_board g))).
         in_bounds (g_board g) (p_pos p)"
      using u h xy corrected_in_bounds [of "g_board g"] by auto
  }
  {
    assume h: "0 \<le> b_x (g_board g) \<and> 0 \<le> b_y (g_board g) \<and>
      fst (update_and_display_board g) = Return () \<and> i < length (g_players g) \<and>
      one_axis_in_bounds (g_board g) (p_pos (g_players g ! i))"
    with u have "g_players g' = map (corrected (g_board g)) (g_players g)"
      using ret by simp
    with h have "g_players g' ! i = corrected (g_board g) (g_players g ! i)" by simp
    then show "in_bounds (g_board g) (p_pos (g_players (snd (update_and_display_board g)) ! i))"
      using u h corrected_in_bounds [of "g_board g" "g_players g ! i"] by simp
  }
  show "rectangular_game (snd (update_and_display_board g))" if "rectangular_game g"
    using that by (rule redraw_keeps_rectangular)
  show "0 \<le> b_x b" if "Board_init h board = (Return b, h')"
    using that by (rule Board_init_bounds(1))
  show "(0 \<le> b_y b) = (rows h ! hd (outers h ! board) \<noteq> [])"
    if "Board_init h board = (Return b, h')"
    using that by (rule Board_init_bounds(2))
qed

lemma rectangular_game_2x3: "rectangular_game (player_at start_pos game_2x3)"
  by (simp add: player_at_game_2x3)
    (simp add: rectangular_game_def game_2x3_def wf_heap_def shape_def)

theorem redraw_puts_in_bounds_witness:
  "rectangular_game (player_at (1, 4) game_2x3) \<and>
   one_axis_in_bounds (g_board (player_at (1, 4) game_2x3)) (1, 4) \<and>
   \<not> in_bounds (g_board (player_at (1, 4) game_2x3)) (1, 4) \<and>
   g_players (player_at (1, 4) game_2x3) = [default_player (1, 4)] \<and>
   0 \<le> b_x (g_board (player_at (1, 4) game_2x3)) \<and>
   0 \<le> b_y (g_board (player_at (1, 4) game_2x3)) \<and>
   fst (update_and_display_board (player_at (1, 4) game_2x3)) = Return () \<and>
   in_bounds (g_board (player_at (1, 4) game_2x3))
     (p_pos (g_players (snd (update_and_display_board (player_at (1, 4) game_2x3))) ! 0)) \<and>
   rectangular_game (snd (update_and_display_board (player_at (1, 4) game_2x3))) \<and>
   Board_init \<lparr> outers = [[0, 1]], rows = [[], [''a'']] \<rparr> 0 =
     (Return (g_board game_empty_first_row), g_heap game_empty_first_row) \<and>
   rows \<lparr> outers = [[0, 1]], rows = [[], [''a'']] \<rparr> ! 0 = [] \<and>
   \<not> 0 \<le> b_y (g_board game_empty_first_row) \<and>
   0 \<le> b_x (g_board game_empty_first_row)"
proof -
  let ?G = "player_at (1, 4) game_2x3"
  let ?E = "\<lparr> outers = [[0, 1]], rows = [[], [''a'']] \<rparr>"
  have rg: "rectangular_game ?G" by (rule rectangular_game_2x3)
  have p: "g_players ?G = [default_player (1, 4)]"
    by (simp add: player_at_game_2x3)
  have b: "b_x (g_board ?G) = 1" "b_y (g_board ?G) = 2"
    by (simp_all add: player_at_game_2x3) (simp_all add: game_2x3_def)
  have one: "one_axis_in_bounds (g_board ?G) (1, 4)" and out: "\<not> in_bounds (g_board ?G) (1, 4)"
    using b by (simp_all add: one_axis_in_bounds_def in_bounds_def)
  have all: "\<forall>p \<in> set (g_players ?G). one_axis_in_bounds (g_board ?G) (p_pos p)"
    using p one by (simp add: default_player_def Player_init_def)
  have bi: "Board_init ?E 0 = (Return (g_board game_empty_first_row), g_heap game_empty_first_row)"
    by (simp add: Board_init_def deepcopy_def game_empty_first_row_def)
  have e: "rows ?E ! 0 = []" "hd (outers ?E ! 0) = 0" by simp_all
  note T = redraw_puts_in_bounds
    [where g = ?G and i = 0 and h = ?E and board = 0 and b = "g_board game_empty_first_row"
       and h' = "g_heap game_empty_first_row"]
  have r: "fst (update_and_display_board ?G) = Return ()"
    using T rg all by blast
  have "one_axis_in_bounds (g_board ?G) (p_pos (g_players ?G ! 0))"
    using p one by (simp add: default_player_def Player_init_def)
  then have i: "in_bounds (g_board ?G) (p_pos (g_players (snd (update_and_display_board ?G)) ! 0))"
    using T r b p by simp
  have k: "rectangular_game (snd (update_and_display_board ?G))"
    using T rg by blast
  have x: "0 \<le> b_x (g_board game_empty_first_row)"
    and y: "(0 \<le> b_y (g_board game_empty_first_row)) = (rows ?E ! hd (outers ?E ! 0) \<noteq> [])"
    using T bi by blast+
  from y e have ny: "\<not> 0 \<le> b_y (g_board game_empty_first_row)" by simp
  have xy: "0 \<le> b_x (g_board ?G)" "0 \<le> b_y (g_board ?G)" using b by simp_all
  show ?thesis
    using rg one out p xy r i k bi e(1) ny x by blast
qed

text \<open>
  Claim C1 as stated fails. On a board of two lines of three cells a player at
  \<^verbatim>\<open>pos = [-2, -1]\<close> is out of bounds, the redraw returns, and the stored position is
  \<^verbatim>\<open>[-2, 0]\<close>, still out of bounds. On the board \<^verbatim>\<open>[[], ["a"]]\<close>, which records
  \<open>y = -1\<close>, a player at \<^verbatim>\<open>pos = [0, 1]\<close> is out of bounds on the column only, the redraw
  returns, and the stored position is \<^verbatim>\<open>[-1, 1]\<close>, out of bounds as well.
\<close>

theorem both_axes_out_counterexample:
  "\<not> in_bounds (g_board (player_at (-2, -1) game_2x3)) (-2, -1) \<and>
   fst (update_and_display_board (player_at (-2, -1) game_2x3)) = Return () \<and>
   p_pos (g_players (snd (update_and_display_board (player_at (-2, -1) game_2x3))) ! 0)
     = (-2, 0) \<and>
   \<not> in_bounds (g_board (snd (update_and_display_board (player_at (-2, -1) game_2x3))))
       (p_pos (g_players (snd (update_and_display_board (player_at (-2, -1) game_2x3))) ! 0)) \<and>
   \<not> in_bounds (g_board (player_at (0, 1) game_empty_first_row)) (0, 1) \<and>
   one_axis_in_bounds (g_board (player_at (0, 1) game_empty_first_row)) (0, 1) \<and>
   fst (update_and_display_board (player_at (0, 1) game_empty_first_row)) = Return () \<and>
   p_pos (g_players (snd (update_and_display_board (player_at (0, 1) game_empty_first_row))) ! 0)
     = (-1, 1) \<and>
   \<not> in_bounds (g_board (snd (update_and_display_board (player_at (0, 1) game_empty_first_row))))
       (p_pos (g_players (snd (update_and_display_board
          (player_at (0, 1) game_empty_first_row))) ! 0))"
  by (simp add: redraw_eval game_empty_first_row_def in_bounds_def one_axis_in_bounds_def)

section \<open>The baseline and its copies\<close>

lemma wf_heap_nth: "wf_heap h \<Longrightarrow> g < length (outers h) \<Longrightarrow> a \<in> set (outers h ! g) \<Longrightarrow> a < length (rows h)"
  by (auto simp: wf_heap_def)

lemma grid_cells_cong:
  assumes "outers h' ! g = outers h ! g" "\<forall>a \<in> set (outers h ! g). rows h' ! a = rows h ! a"
  shows "grid_cells h' g = grid_cells h g"
  using assms by (simp add: grid_cells_def)

lemma original_keeps_baseline:
  assumes "baseline_kept h b cells" "original h b = (w, h1)"
  shows "grid_cells h1 w = cells" "w \<noteq> b_copy b"
    "set (outers h1 ! w) \<inter> set (outers h1 ! b_copy b) = {}"
    "baseline_kept h1 b cells" "w < length (outers h1)"
proof -
  let ?c = "b_copy b"
  from assms(1) have wf: "wf_heap h" and c: "?c < length (outers h)"
    and priv: "\<forall>g < length (outers h). g \<noteq> ?c \<longrightarrow> set (outers h ! g) \<inter> set (outers h ! ?c) = {}"
    and cells: "grid_cells h ?c = cells"
    by (simp_all add: baseline_kept_def)
  note dc = assms(2) [unfolded original_def]
  have w: "w = length (outers h)" using deepcopy_alloc(1) [OF dc] .
  have len: "length (outers h1) = Suc (length (outers h))" using deepcopy_frame(3) [OF dc] .
  have oc: "outers h1 ! ?c = outers h ! ?c" using deepcopy_frame(1) [OF dc c] .
  have old: "\<forall>a \<in> set (outers h ! ?c). a < length (rows h)"
    using wf_heap_nth [OF wf c] by blast
  have fresh: "\<forall>a \<in> set (outers h1 ! w). length (rows h) \<le> a"
    using deepcopy_copy(3) [OF dc wf c] .
  show "grid_cells h1 w = cells"
    using deepcopy_cells [OF dc wf c] cells by simp
  show "w \<noteq> ?c" using w c by simp
  show disj: "set (outers h1 ! w) \<inter> set (outers h1 ! ?c) = {}"
    using fresh old oc by fastforce
  show "w < length (outers h1)" using w len by simp
  have wf1: "wf_heap h1" using deepcopy_wf [OF dc wf c] .
  have c1: "?c < length (outers h1)" using c len by simp
  have priv1: "\<forall>g < length (outers h1). g \<noteq> ?c \<longrightarrow>
      set (outers h1 ! g) \<inter> set (outers h1 ! ?c) = {}"
  proof (intro allI impI)
    fix g assume g: "g < length (outers h1)" "g \<noteq> ?c"
    show "set (outers h1 ! g) \<inter> set (outers h1 ! ?c) = {}"
    proof (cases "g = w")
      case True
      with disj show ?thesis by simp
    next
      case False
      with g len w have gl: "g < length (outers h)" by simp
      then have "outers h1 ! g = outers h ! g" using deepcopy_frame(1) [OF dc] by simp
      with priv gl g(2) oc show ?thesis by simp
    qed
  qed
  have "grid_cells h1 ?c = grid_cells h ?c"
    using grid_cells_cong [OF oc] deepcopy_frame(2) [OF dc] old by simp
  with wf1 c1 priv1 cells show "baseline_kept h1 b cells"
    by (simp add: baseline_kept_def)
qed

lemma Board_init_keeps_baseline:
  assumes "wf_heap h" "board < length (outers h)" "Board_init h board = (Return b, h0)"
  shows "baseline_kept h0 b (grid_cells h board)"
proof -
  from assms(3) obtain c where dc: "deepcopy h board = (c, h0)" and bc: "b_copy b = c"
    by (auto simp: Board_init_def split: list.splits prod.splits)
  let ?c = "b_copy b"
  have w: "?c = length (outers h)" using deepcopy_alloc(1) [OF dc] bc by simp
  have len: "length (outers h0) = Suc (length (outers h))" using deepcopy_frame(3) [OF dc] .
  have fresh: "\<forall>a \<in> set (outers h0 ! ?c). length (rows h) \<le> a"
    using deepcopy_copy(3) [OF dc assms(1,2)] bc by simp
  have wf0: "wf_heap h0" using deepcopy_wf [OF dc assms(1,2)] .
  have priv: "\<forall>g < length (outers h0). g \<noteq> ?c \<longrightarrow>
      set (outers h0 ! g) \<inter> set (outers h0 ! ?c) = {}"
  proof (intro allI impI)
    fix g assume g: "g < length (outers h0)" "g \<noteq> ?c"
    with len w have gl: "g < length (outers h)" by simp
    then have eq: "outers h0 ! g = outers h ! g" using deepcopy_frame(1) [OF dc] by simp
    have "\<forall>a \<in> set (outers h ! g). a < length (rows h)"
      using wf_heap_nth [OF assms(1) gl] by blast
    with fresh eq show "set (outers h0 ! g) \<inter> set (outers h0 ! ?c) = {}"
      by fastforce
  qed
  have "grid_cells h0 ?c = grid_cells h board"
    using deepcopy_cells [OF dc assms(1,2)] bc by simp
  with wf0 priv w len show ?thesis
    by (simp add: baseline_kept_def)
qed

lemma baseline_kept_outers_update:
  assumes k: "baseline_kept h b cells" and g: "g < length (outers h)" "g \<noteq> b_copy b"
    and new: "\<forall>a \<in> set rs. a < length (rows h) + length ext \<and> a \<notin> set (outers h ! b_copy b)"
  shows "baseline_kept \<lparr> outers = (outers h)[g := rs], rows = rows h @ ext \<rparr> b cells"
proof -
  let ?c = "b_copy b"
  let ?h' = "\<lparr> outers = (outers h)[g := rs], rows = rows h @ ext \<rparr>"
  from k have wf: "wf_heap h" and c: "?c < length (outers h)"
    and priv: "\<forall>g < length (outers h). g \<noteq> ?c \<longrightarrow> set (outers h ! g) \<inter> set (outers h ! ?c) = {}"
    and cells: "grid_cells h ?c = cells"
    by (simp_all add: baseline_kept_def)
  have oc: "outers ?h' ! ?c = outers h ! ?c" using g by simp
  have wf': "wf_heap ?h'"
    unfolding wf_heap_def
  proof (intro ballI)
    fix xs a assume xs: "xs \<in> set (outers ?h')" and a: "a \<in> set xs"
    from xs have "xs \<in> set (outers h) \<or> xs = rs"
      using set_update_subset_insert [of "outers h" g rs] by auto
    then show "a < length (rows ?h')"
    proof
      assume "xs \<in> set (outers h)"
      with wf a have "a < length (rows h)" by (auto simp: wf_heap_def)
      then show ?thesis by simp
    next
      assume "xs = rs"
      with new a show ?thesis by simp
    qed
  qed
  have priv': "\<forall>g0 < length (outers ?h'). g0 \<noteq> ?c \<longrightarrow>
      set (outers ?h' ! g0) \<inter> set (outers ?h' ! ?c) = {}"
  proof (intro allI impI)
    fix g0 assume g0: "g0 < length (outers ?h')" "g0 \<noteq> ?c"
    show "set (outers ?h' ! g0) \<inter> set (outers ?h' ! ?c) = {}"
    proof (cases "g0 = g")
      case True
      with g new oc show ?thesis by auto
    next
      case False
      with g0 priv oc show ?thesis by simp
    qed
  qed
  have "\<forall>a \<in> set (outers h ! ?c). rows ?h' ! a = rows h ! a"
    using wf_heap_nth [OF wf c] by (simp add: nth_append)
  then have "grid_cells ?h' ?c = grid_cells h ?c"
    using grid_cells_cong [OF oc] by blast
  with wf' c priv' cells show ?thesis
    by (simp add: baseline_kept_def)
qed

lemma setitem2_keeps_baseline:
  assumes k: "baseline_kept h b cells" and g: "g < length (outers h)" "g \<noteq> b_copy b"
  shows "baseline_kept (snd (setitem2 h g i j v)) b cells"
proof -
  let ?c = "b_copy b"
  obtain r h' where s: "setitem2 h g i j v = (r, h')"
    by (cases "setitem2 h g i j v")
  note f = setitem2_frame [OF s]
  from k have wf: "wf_heap h" and c: "?c < length (outers h)"
    and priv: "\<forall>g < length (outers h). g \<noteq> ?c \<longrightarrow> set (outers h ! g) \<inter> set (outers h ! ?c) = {}"
    and cells: "grid_cells h ?c = cells"
    by (simp_all add: baseline_kept_def)
  have wf': "wf_heap h'" using wf f(1,2) by (simp add: wf_heap_def)
  have disj: "set (outers h ! g) \<inter> set (outers h ! ?c) = {}" using priv g by simp
  have "\<forall>a \<in> set (outers h ! ?c). rows h' ! a = rows h ! a"
  proof
    fix a assume "a \<in> set (outers h ! ?c)"
    with disj have "a \<notin> set (outers h ! g)" by blast
    then show "rows h' ! a = rows h ! a" by (rule f(3))
  qed
  then have "grid_cells h' ?c = grid_cells h ?c"
    using grid_cells_cong [of h' ?c h] f(1) by simp
  with wf' c priv cells f(1) s show ?thesis
    by (simp add: baseline_kept_def)
qed

lemma mutate_keeps_baseline:
  assumes k: "baseline_kept h b cells" and n: "b_copy b \<notin> set (named m)"
  shows "baseline_kept (mutate b h m) b cells"
proof (cases m)
  case (SetCell g i j v)
  with k n show ?thesis
    using setitem2_keeps_baseline [OF k, of g i j v] by simp
next
  case (SetRow g i cs)
  show ?thesis
  proof (cases "g < length (outers h) \<and> py_index (length (outers h ! g)) i \<noteq> None")
    case False
    with SetRow k show ?thesis by (auto split: option.splits)
  next
    case True
    then obtain i' where i': "py_index (length (outers h ! g)) i = Some i'" and g: "g < length (outers h)"
      by blast
    from SetRow n have gc: "g \<noteq> b_copy b" by simp
    from k have wf: "wf_heap h" and c: "b_copy b < length (outers h)"
      and priv: "set (outers h ! g) \<inter> set (outers h ! b_copy b) = {}"
      using g gc by (simp_all add: baseline_kept_def)
    have "\<forall>a \<in> set ((outers h ! g)[i' := length (rows h)]).
        a < length (rows h) + length [cs] \<and> a \<notin> set (outers h ! b_copy b)"
    proof
      fix a assume "a \<in> set ((outers h ! g)[i' := length (rows h)])"
      then have "a = length (rows h) \<or> a \<in> set (outers h ! g)"
        using set_update_subset_insert [of "outers h ! g" i' "length (rows h)"] by auto
      then show "a < length (rows h) + length [cs] \<and> a \<notin> set (outers h ! b_copy b)"
        using wf_heap_nth [OF wf g] wf_heap_nth [OF wf c] priv by fastforce
    qed
    from baseline_kept_outers_update [OF k g gc this] SetRow i' g show ?thesis by simp
  qed
next
  case (AppendRow g cs)
  show ?thesis
  proof (cases "g < length (outers h)")
    case False
    with AppendRow k show ?thesis by simp
  next
    case g: True
    from AppendRow n have gc: "g \<noteq> b_copy b" by simp
    from k have wf: "wf_heap h" and c: "b_copy b < length (outers h)"
      and priv: "set (outers h ! g) \<inter> set (outers h ! b_copy b) = {}"
      using g gc by (simp_all add: baseline_kept_def)
    have "\<forall>a \<in> set (outers h ! g @ [length (rows h)]).
        a < length (rows h) + length [cs] \<and> a \<notin> set (outers h ! b_copy b)"
      using wf_heap_nth [OF wf g] wf_heap_nth [OF wf c] priv by fastforce
    from baseline_kept_outers_update [OF k g gc this] AppendRow g show ?thesis by simp
  qed
next
  case (ShareRow g i g2 j)
  show ?thesis
  proof (cases "g < length (outers h) \<and> g2 < length (outers h) \<and>
      py_index (length (outers h ! g2)) j \<noteq> None \<and> py_index (length (outers h ! g)) i \<noteq> None")
    case False
    with ShareRow k show ?thesis by (auto split: option.splits)
  next
    case True
    then obtain i' j' where i': "py_index (length (outers h ! g)) i = Some i'"
      and j': "py_index (length (outers h ! g2)) j = Some j'"
      and g: "g < length (outers h)" and g2: "g2 < length (outers h)"
      by blast
    from ShareRow n have gc: "g \<noteq> b_copy b" and g2c: "g2 \<noteq> b_copy b" by simp_all
    from k have wf: "wf_heap h"
      and priv: "set (outers h ! g) \<inter> set (outers h ! b_copy b) = {}"
      and priv2: "set (outers h ! g2) \<inter> set (outers h ! b_copy b) = {}"
      using g gc g2 g2c by (simp_all add: baseline_kept_def)
    have x: "outers h ! g2 ! j' \<in> set (outers h ! g2)"
      using py_index_less [OF j'] by simp
    have "\<forall>a \<in> set ((outers h ! g)[i' := outers h ! g2 ! j']).
        a < length (rows h) + length ([] :: string list list) \<and> a \<notin> set (outers h ! b_copy b)"
    proof
      fix a assume "a \<in> set ((outers h ! g)[i' := outers h ! g2 ! j'])"
      then have "a = outers h ! g2 ! j' \<or> a \<in> set (outers h ! g)"
        using set_update_subset_insert [of "outers h ! g" i' "outers h ! g2 ! j'"] by auto
      then show "a < length (rows h) + length ([] :: string list list) \<and>
          a \<notin> set (outers h ! b_copy b)"
        using wf_heap_nth [OF wf g] wf_heap_nth [OF wf g2] x priv priv2 by fastforce
    qed
    from baseline_kept_outers_update [OF k g gc this]
    have "baseline_kept \<lparr> outers = (outers h)[g := (outers h ! g)[i' := outers h ! g2 ! j']],
        rows = rows h \<rparr> b cells"
      by simp
    with ShareRow i' j' g g2 show ?thesis by simp
  qed
next
  case Reset
  obtain w h1 where o: "original h b = (w, h1)" by (cases "original h b")
  from original_keeps_baseline(4) [OF k o] Reset o show ?thesis by simp
qed

lemma mutate_all_keeps_baseline:
  "baseline_kept h b cells \<Longrightarrow> \<forall>m \<in> set ms. b_copy b \<notin> set (named m) \<Longrightarrow>
   baseline_kept (mutate_all b ms h) b cells"
  unfolding mutate_all_def
proof (induction ms arbitrary: h)
  case Nil
  then show ?case by simp
next
  case (Cons m ms)
  have "baseline_kept (mutate b h m) b cells"
    using mutate_keeps_baseline [of h b cells m] Cons.prems by simp
  then show ?case
    using Cons.IH [of "mutate b h m"] Cons.prems by simp
qed

lemma original_as_string_text:
  assumes k: "baseline_kept h b cells" and ne: "cells \<noteq> []"
  shows "fst (original_as_string h b) = Return (concat (map (\<lambda>r. concat r @ [CHR 0x0A]) cells))"
proof -
  obtain w h1 where o: "original h b = (w, h1)" by (cases "original h b")
  note ok = original_keeps_baseline [OF k o]
  have wf1: "wf_heap h1" using ok(4) by (simp add: baseline_kept_def)
  have "outers h1 ! w \<noteq> []"
    using ok(1) ne by (auto simp: grid_cells_def)
  then obtain r0 rs where rows: "outers h1 ! w = r0 # rs" by (cases "outers h1 ! w") auto
  obtain c h2 where dc: "deepcopy h1 w = (c, h2)" by (cases "deepcopy h1 w")
  have ow: "outers h2 ! w = outers h1 ! w" using deepcopy_frame(1) [OF dc ok(5)] .
  have "\<forall>a \<in> set (outers h1 ! w). rows h2 ! a = rows h1 ! a"
    using deepcopy_frame(2) [OF dc] wf_heap_nth [OF wf1 ok(5)] by blast
  then have "grid_cells h2 w = cells"
    using grid_cells_cong [OF ow] ok(1) by simp
  then have "grid_str h2 w = concat (map (\<lambda>r. concat r @ [CHR 0x0A]) cells)"
    by (simp add: grid_str_cells)
  then show ?thesis
    using o rows dc by (simp add: original_as_string_def Board_init_def Board_str_def)
qed

text \<open>
  Claim C7. Take a board constructed from a grid, and let the program then change, in
  any of the ways above and any number of times, any lists other than the baseline.
  The grid \<^verbatim>\<open>_original()\<close> returns next has the text the grid had when the board was
  constructed, and \<^verbatim>\<open>_original_as_string()\<close> returns that text. The returned grid is
  not the baseline and shares no row with it; and whatever is then done to the returned
  grid, the grid returned by a later \<^verbatim>\<open>_original()\<close> has the original text again.
\<close>

theorem reset_round_trip_without_aliasing:
  "wf_heap h \<and> board < length (outers h) \<and> Board_init h board = (Return b, h0) \<and>
   (\<forall>m \<in> set ms. b_copy b \<notin> set (named m)) \<and>
   original (mutate_all b ms h0) b = (w, h1) \<longrightarrow>
     grid_str h1 w = grid_str h board \<and>
     fst (original_as_string (mutate_all b ms h0) b) = Return (grid_str h board) \<and>
     w \<noteq> b_copy b \<and>
     set (outers h1 ! w) \<inter> set (outers h1 ! b_copy b) = {} \<and>
     (\<forall>ms'. (\<forall>m \<in> set ms'. set (named m) \<subseteq> {w}) \<longrightarrow>
        grid_str (snd (original (mutate_all b ms' h1) b))
          (fst (original (mutate_all b ms' h1) b)) = grid_str h board)"
proof (intro impI)
  assume a: "wf_heap h \<and> board < length (outers h) \<and> Board_init h board = (Return b, h0) \<and>
   (\<forall>m \<in> set ms. b_copy b \<notin> set (named m)) \<and>
   original (mutate_all b ms h0) b = (w, h1)"
  let ?cells = "grid_cells h board"
  have k0: "baseline_kept h0 b ?cells"
    using Board_init_keeps_baseline a by blast
  have k: "baseline_kept (mutate_all b ms h0) b ?cells"
    using mutate_all_keeps_baseline [OF k0] a by blast
  from a have o: "original (mutate_all b ms h0) b = (w, h1)" by simp
  note ok = original_keeps_baseline [OF k o]
  from a have "outers h ! board \<noteq> []"
    by (auto simp: Board_init_def split: list.splits)
  then have ne: "?cells \<noteq> []" by (simp add: grid_cells_def)
  have 1: "grid_str h1 w = grid_str h board"
    using ok(1) by (simp add: grid_str_cells)
  have 2: "fst (original_as_string (mutate_all b ms h0) b) = Return (grid_str h board)"
    using original_as_string_text [OF k ne] by (simp add: grid_str_cells)
  have 5: "\<forall>ms'. (\<forall>m \<in> set ms'. set (named m) \<subseteq> {w}) \<longrightarrow>
        grid_str (snd (original (mutate_all b ms' h1) b))
          (fst (original (mutate_all b ms' h1) b)) = grid_str h board"
  proof (intro allI impI)
    fix ms' assume n: "\<forall>m \<in> set ms'. set (named m) \<subseteq> {w}"
    with ok(2) have "\<forall>m \<in> set ms'. b_copy b \<notin> set (named m)" by blast
    then have k': "baseline_kept (mutate_all b ms' h1) b ?cells"
      using mutate_all_keeps_baseline [OF ok(4)] by blast
    obtain w' h' where o': "original (mutate_all b ms' h1) b = (w', h')"
      by (cases "original (mutate_all b ms' h1) b")
    from original_keeps_baseline(1) [OF k' o'] o'
    show "grid_str (snd (original (mutate_all b ms' h1) b))
          (fst (original (mutate_all b ms' h1) b)) = grid_str h board"
      by (simp add: grid_str_cells)
  qed
  from 1 2 ok(2,3) 5
  show "grid_str h1 w = grid_str h board \<and>
     fst (original_as_string (mutate_all b ms h0) b) = Return (grid_str h board) \<and>
     w \<noteq> b_copy b \<and>
     set (outers h1 ! w) \<inter> set (outers h1 ! b_copy b) = {} \<and>
     (\<forall>ms'. (\<forall>m \<in> set ms'. set (named m) \<subseteq> {w}) \<longrightarrow>
        grid_str (snd (original (mutate_all b ms' h1) b))
          (fst (original (mutate_all b ms' h1) b)) = grid_str h board)"
    by blast
qed

theorem reset_round_trip_without_aliasing_witness:
  "Board_init \<lparr> outers = [[0, 1]], rows = [[''a'', ''b''], [''c'', ''d'']] \<rparr> 0 =
     (Return \<lparr> b_board = 0, b_x = 1, b_y = 1, b_copy = 1 \<rparr>,
      \<lparr> outers = [[0, 1], [2, 3]],
        rows = [[''a'', ''b''], [''c'', ''d''], [''a'', ''b''], [''c'', ''d'']] \<rparr>) \<and>
   original
     (mutate_all \<lparr> b_board = 0, b_x = 1, b_y = 1, b_copy = 1 \<rparr> [SetCell 0 0 0 ''X'']
        \<lparr> outers = [[0, 1], [2, 3]],
          rows = [[''a'', ''b''], [''c'', ''d''], [''a'', ''b''], [''c'', ''d'']] \<rparr>)
     \<lparr> b_board = 0, b_x = 1, b_y = 1, b_copy = 1 \<rparr> =
     (2, \<lparr> outers = [[0, 1], [2, 3], [4, 5]],
           rows = [[''X'', ''b''], [''c'', ''d''], [''a'', ''b''], [''c'', ''d''],
                   [''a'', ''b''], [''c'', ''d'']] \<rparr>) \<and>
   mutate_all \<lparr> b_board = 0, b_x = 1, b_y = 1, b_copy = 1 \<rparr>
     [SetCell 2 1 1 ''Y'', AppendRow 2 [''z'']]
     \<lparr> outers = [[0, 1], [2, 3], [4, 5]],
       rows = [[''X'', ''b''], [''c'', ''d''], [''a'', ''b''], [''c'', ''d''],
               [''a'', ''b''], [''c'', ''d'']] \<rparr> =
     \<lparr> outers = [[0, 1], [2, 3], [4, 5, 6]],
       rows = [[''X'', ''b''], [''c'', ''d''], [''a'', ''b''], [''c'', ''d''],
               [''a'', ''b''], [''c'', ''Y''], [''z'']] \<rparr> \<and>
   grid_str \<lparr> outers = [[0, 1]], rows = [[''a'', ''b''], [''c'', ''d'']] \<rparr> 0 =
     [CHR ''a'', CHR ''b'', CHR 0x0A, CHR ''c'', CHR ''d'', CHR 0x0A] \<and>
   grid_str
     (snd (original
        \<lparr> outers = [[0, 1], [2, 3], [4, 5, 6]],
          rows = [[''X'', ''b''], [''c'', ''d''], [''a'', ''b''], [''c'', ''d''],
                  [''a'', ''b''], [''c'', ''Y''], [''z'']] \<rparr>
        \<lparr> b_board = 0, b_x = 1, b_y = 1, b_copy = 1 \<rparr>))
     (fst (original
        \<lparr> outers = [[0, 1], [2, 3], [4, 5, 6]],
          rows = [[''X'', ''b''], [''c'', ''d''], [''a'', ''b''], [''c'', ''d''],
                  [''a'', ''b''], [''c'', ''Y''], [''z'']] \<rparr>
        \<lparr> b_board = 0, b_x = 1, b_y = 1, b_copy = 1 \<rparr>)) =
     [CHR ''a'', CHR ''b'', CHR 0x0A, CHR ''c'', CHR ''d'', CHR 0x0A]"
proof -
  let ?H = "\<lparr> outers = [[0, 1]], rows = [[''a'', ''b''], [''c'', ''d'']] \<rparr>"
  let ?B = "\<lparr> b_board = 0, b_x = 1, b_y = 1, b_copy = 1 \<rparr>"
  let ?Ha = "\<lparr> outers = [[0, 1], [2, 3]],
          rows = [[''a'', ''b''], [''c'', ''d''], [''a'', ''b''], [''c'', ''d'']] \<rparr>"
  let ?Hb = "\<lparr> outers = [[0, 1], [2, 3], [4, 5]],
       rows = [[''X'', ''b''], [''c'', ''d''], [''a'', ''b''], [''c'', ''d''],
               [''a'', ''b''], [''c'', ''d'']] \<rparr>"
  let ?Hc = "\<lparr> outers = [[0, 1], [2, 3], [4, 5, 6]],
       rows = [[''X'', ''b''], [''c'', ''d''], [''a'', ''b''], [''c'', ''d''],
               [''a'', ''b''], [''c'', ''Y''], [''z'']] \<rparr>"
  let ?ms' = "[SetCell 2 1 1 ''Y'', AppendRow 2 [''z'']]"
  have wf: "wf_heap ?H" by (simp add: wf_heap_def)
  have bd: "(0::nat) < length (outers ?H)" by simp
  have bi: "Board_init ?H 0 = (Return ?B, ?Ha)"
    by (simp add: Board_init_def deepcopy_def)
  have nm: "\<forall>m \<in> set [SetCell 0 0 0 ''X'']. b_copy ?B \<notin> set (named m)" by simp
  have o: "original (mutate_all ?B [SetCell 0 0 0 ''X''] ?Ha) ?B = (2, ?Hb)"
    by (simp add: mutate_all_def setitem2_def py_index_def original_def deepcopy_def)
  have m2: "mutate_all ?B ?ms' ?Hb = ?Hc"
    by (simp add: mutate_all_def setitem2_def py_index_def)
  have nm': "\<forall>m \<in> set ?ms'. set (named m) \<subseteq> {2}" by simp
  have t: "grid_str ?H 0 = [CHR ''a'', CHR ''b'', CHR 0x0A, CHR ''c'', CHR ''d'', CHR 0x0A]"
    by (simp add: grid_str_def)
  have pre: "wf_heap ?H \<and> 0 < length (outers ?H) \<and> Board_init ?H 0 = (Return ?B, ?Ha) \<and>
      (\<forall>m \<in> set [SetCell 0 0 0 ''X'']. b_copy ?B \<notin> set (named m)) \<and>
      original (mutate_all ?B [SetCell 0 0 0 ''X''] ?Ha) ?B = (2, ?Hb)"
    using wf bd bi nm o by (intro conjI)
  note T = reset_round_trip_without_aliasing
    [where h = ?H and board = 0 and b = ?B and ?h0.0 = ?Ha and ms = "[SetCell 0 0 0 ''X'']"
       and w = 2 and ?h1.0 = ?Hb, THEN mp, OF pre]
  from T have "\<forall>ms'. (\<forall>m \<in> set ms'. set (named m) \<subseteq> {2}) \<longrightarrow>
        grid_str (snd (original (mutate_all ?B ms' ?Hb) ?B))
          (fst (original (mutate_all ?B ms' ?Hb) ?B)) = grid_str ?H 0"
    by (elim conjE)
  then have "grid_str (snd (original (mutate_all ?B ?ms' ?Hb) ?B))
          (fst (original (mutate_all ?B ?ms' ?Hb) ?B)) = grid_str ?H 0"
    using nm' by (elim allE [of _ ?ms'] impE)
  then have "grid_str (snd (original ?Hc ?B)) (fst (original ?Hc ?B)) =
      [CHR ''a'', CHR ''b'', CHR 0x0A, CHR ''c'', CHR ''d'', CHR 0x0A]"
    using m2 t by simp
  with bi o m2 t show ?thesis by blast
qed

section \<open>Games built from rectangular grids\<close>

text \<open>
  \<^verbatim>\<open>ConsoleGame(board)\<close> on a grid whose rows all have the length of the first, which is
  not empty, gives a game with a rectangular baseline.
\<close>

lemma ConsoleGame_init_rectangular:
  assumes "wf_heap h" "board < length (outers h)"
    "ConsoleGame_init h con board = Return g"
    "\<forall>a \<in> set (outers h ! board). length (rows h ! a) = length (rows h ! hd (outers h ! board))"
    "rows h ! hd (outers h ! board) \<noteq> []"
  shows "rectangular_game g"
proof -
  from assms(3) obtain b h0 where bi: "Board_init h board = (Return b, h0)"
    and g: "g_board g = b" "g_heap g = h0"
    by (auto simp: ConsoleGame_init_def split: prod.splits result.splits)
  from bi obtain r0 rs where rows: "outers h ! board = r0 # rs"
    by (auto simp: Board_init_def split: list.splits)
  from bi rows obtain c where dc: "deepcopy h board = (c, h0)" and bc: "b_copy b = c"
    and x: "b_x b = int (length (outers h ! board)) - 1"
    and y: "b_y b = int (length (rows h ! r0)) - 1"
    by (auto simp: Board_init_def split: prod.splits)
  have valid: "\<forall>a \<in> set (outers h ! board). a < length (rows h)"
    using wf_heap_nth [OF assms(1,2)] by blast
  have sh: "shape h board (b_x b) (b_y b)"
    using valid assms(4) x y rows by (simp add: shape_def)
  have "shape h0 c (b_x b) (b_y b)"
    using deepcopy_shape [OF dc assms(1,2) sh] .
  moreover have "wf_heap h0" using deepcopy_wf [OF dc assms(1,2)] .
  moreover have "c < length (outers h0)"
    using deepcopy_alloc(1) [OF dc] deepcopy_frame(3) [OF dc] by simp
  moreover have "0 \<le> b_x b" using x rows by simp
  moreover have "0 \<le> b_y b" using y assms(5) rows by (cases "rows h ! r0") simp_all
  ultimately show ?thesis
    using g bc by (simp add: rectangular_game_def)
qed

end
